theory Spec2Isabelle
  imports Main "HOL-Library.Word" "HOL-Library.Sublist"
begin

section \<open>JavaScript values used by the program\<close>

text \<open>
  A JavaScript string is a sequence of UTF-16 code units; \<open>length\<close>, \<open>===\<close>,
  \<open>includes\<close> and \<open>trim\<close> all work on code units.
\<close>

type_synonym jschar = "16 word"
type_synonym jsstring = "jschar list"

definition js :: "string \<Rightarrow> jsstring" where
  "js s = map (\<lambda>c. of_nat (of_char c)) s"

text \<open>\<open>"${s}"\<close> inside a template literal: the string between two double quotes.\<close>

definition quoted :: "jsstring \<Rightarrow> jsstring" where
  "quoted s = 0x22 # s @ [0x22]"

text \<open>The separator \<open>" \<rightarrow> "\<close> (space, U+2192, space) of the diff descriptions.\<close>

definition arrow :: jsstring where
  "arrow = [0x20, 0x2192, 0x20]"

text \<open>\<open>`${n}`\<close> for a non-negative integer: its decimal digits.\<close>

function show_nat :: "nat \<Rightarrow> jsstring" where
  "show_nat n = (if n < 10 then [of_nat (48 + n)] else show_nat (n div 10) @ [of_nat (48 + n mod 10)])"
  by pat_completeness auto
termination
  by (relation "measure id") auto

declare show_nat.simps [simp del]

text \<open>\<open>String.prototype.includes\<close>: \<open>t\<close> occurs in \<open>s\<close> as a contiguous run.\<close>

fun str_includes :: "'a list \<Rightarrow> 'a list \<Rightarrow> bool" where
  "str_includes [] t = (t = [])"
| "str_includes (c # s) t = (prefix t (c # s) \<or> str_includes s t)"

text \<open>\<open>Array.prototype.join\<close>.\<close>

fun join :: "'a list \<Rightarrow> 'a list list \<Rightarrow> 'a list" where
  "join sep [] = []"
| "join sep [x] = x"
| "join sep (x # y # ys) = x @ sep @ join sep (y # ys)"

text \<open>
  \<open>String.prototype.trim\<close> removes WhiteSpace and LineTerminator code points from both
  ends; all of them lie in the Basic Multilingual Plane.
\<close>

definition is_ws :: "jschar \<Rightarrow> bool" where
  "is_ws c = (c \<in> set [0x09, 0x0A, 0x0B, 0x0C, 0x0D, 0x20, 0xA0, 0x1680,
     0x2000, 0x2001, 0x2002, 0x2003, 0x2004, 0x2005, 0x2006, 0x2007, 0x2008, 0x2009, 0x200A,
     0x2028, 0x2029, 0x202F, 0x205F, 0x3000, 0xFEFF])"

definition trim :: "jsstring \<Rightarrow> jsstring" where
  "trim s = rev (dropWhile is_ws (rev (dropWhile is_ws s)))"

subsection \<open>Map, Set and plain objects\<close>

text \<open>
  A \<open>Map\<close> keeps its entries in insertion order; \<open>set\<close> on a key that is already present
  replaces the value and leaves the entry where it is. A plain object is the association
  list of its own properties, keys pairwise different, in the order \<open>Object.keys\<close> gives
  them.
\<close>

type_synonym ('k, 'v) jsmap = "('k \<times> 'v) list"

fun map_set :: "('k, 'v) jsmap \<Rightarrow> 'k \<Rightarrow> 'v \<Rightarrow> ('k, 'v) jsmap" where
  "map_set [] k v = [(k, v)]"
| "map_set ((k', v') # m) k v = (if k' = k then (k, v) # m else (k', v') # map_set m k v)"

definition map_get :: "('k, 'v) jsmap \<Rightarrow> 'k \<Rightarrow> 'v option" where
  "map_get m k = map_of m k"

definition map_has :: "('k, 'v) jsmap \<Rightarrow> 'k \<Rightarrow> bool" where
  "map_has m k = (map_of m k \<noteq> None)"

text \<open>\<open>new Map(entries)\<close>.\<close>

definition new_Map :: "('k \<times> 'v) list \<Rightarrow> ('k, 'v) jsmap" where
  "new_Map es = foldl (\<lambda>m (k, v). map_set m k v) [] es"

text \<open>\<open>new Set(xs)\<close>, in insertion order: the first occurrence of each element.\<close>

definition new_Set :: "'a list \<Rightarrow> 'a list" where
  "new_Set xs = foldl (\<lambda>s x. if x \<in> set s then s else s @ [x]) [] xs"

text \<open>\<open>Object.keys\<close>.\<close>

definition keys :: "('k, 'v) jsmap \<Rightarrow> 'k list" where
  "keys m = map fst m"

text \<open>\<open>Array.prototype.findIndex\<close>: the first index whose element satisfies \<open>p\<close>, or -1.\<close>

fun findIndex :: "('a \<Rightarrow> bool) \<Rightarrow> 'a list \<Rightarrow> int" where
  "findIndex p [] = -1"
| "findIndex p (x # xs) = (if p x then 0 else (let i = findIndex p xs in if i = -1 then -1 else i + 1))"

text \<open>
  \<open>xs.splice(start, 1)\<close>: a negative \<open>start\<close> counts from the end (clamped at 0), a
  \<open>start\<close> beyond the end removes nothing.
\<close>

definition splice1 :: "'a list \<Rightarrow> int \<Rightarrow> 'a list" where
  "splice1 xs start =
     (let len = int (length xs);
          s = (if start < 0 then max (len + start) 0 else min start len)
      in take (nat s) xs @ drop (nat s + 1) xs)"

text \<open>
  \<open>obj[k]\<close> on a plain object with string values: the own property \<open>k\<close>; without it the
  member \<open>k\<close> of \<open>Object.prototype\<close> (\<open>constructor\<close>, \<open>toString\<close>, \<open>__proto__\<close>,
  ...) when there is one; else \<open>undefined\<close>. The parameter \<open>proto\<close> is
  \<open>Object.prototype\<close>: its member names, each with the text a template literal prints
  for the member (the text of a native function differs between engines).
\<close>

datatype jsval = Undefined | Str jsstring | Inherited jsstring

definition obj_read :: "(jsstring, jsstring) jsmap \<Rightarrow> (jsstring, jsstring) jsmap \<Rightarrow> jsstring \<Rightarrow> jsval" where
  "obj_read proto obj k =
     (case map_of obj k of
        Some v \<Rightarrow> Str v
      | None \<Rightarrow> (case map_of proto k of Some t \<Rightarrow> Inherited t | None \<Rightarrow> Undefined))"

text \<open>
  The own keys of an object come in the order of \<open>OrdinaryOwnPropertyKeys\<close>: the array
  indices (\<open>"0"\<close>, \<open>"7"\<close>, ... below \<open>2\<^sup>3\<^sup>2 - 1\<close>, written without a leading zero) in
  ascending order, then the other keys in the order they were created.
\<close>

fun digits_value :: "jsstring \<Rightarrow> nat \<Rightarrow> nat option" where
  "digits_value [] n = Some n"
| "digits_value (c # cs) n =
     (if 0x30 \<le> c \<and> c \<le> 0x39 then digits_value cs (10 * n + (unat c - 48)) else None)"

definition array_index :: "jsstring \<Rightarrow> nat option" where
  "array_index k =
     (case k of
        [] \<Rightarrow> None
      | c # cs \<Rightarrow>
          if c = 0x30 \<and> cs \<noteq> [] then None
          else (case digits_value k 0 of
                  Some n \<Rightarrow> if n < 2 ^ 32 - 1 then Some n else None
                | None \<Rightarrow> None))"

fun insert_index :: "nat \<Rightarrow> jsstring \<Rightarrow> 'v \<Rightarrow> (jsstring, 'v) jsmap \<Rightarrow> (jsstring, 'v) jsmap" where
  "insert_index n k v [] = [(k, v)]"
| "insert_index n k v ((k', v') # m) =
     (case array_index k' of
        Some n' \<Rightarrow> if n' < n then (k', v') # insert_index n k v m else (k, v) # (k', v') # m
      | None \<Rightarrow> (k, v) # (k', v') # m)"

text \<open>
  \<open>obj[k] = v\<close> on a plain object: an own property \<open>k\<close> gets the value and keeps its
  place; a new property is created at the place its key has in the order above. The one
  exception is the key \<open>__proto__\<close> on an object without such an own property: the
  assignment reaches the setter inherited from \<open>Object.prototype\<close>, which creates no
  property.
\<close>

definition obj_set :: "(jsstring, 'v) jsmap \<Rightarrow> jsstring \<Rightarrow> 'v \<Rightarrow> (jsstring, 'v) jsmap" where
  "obj_set obj k v =
     (if k \<in> set (keys obj) then map_set obj k v
      else if k = js ''__proto__'' then obj
      else (case array_index k of
              Some n \<Rightarrow> insert_index n k v obj
            | None \<Rightarrow> obj @ [(k, v)]))"

subsection \<open>JSON values\<close>

text \<open>
  A value that \<open>JSON.parse\<close> can give. A number is kept as the text \<open>String\<close> gives for
  it (\<open>"20"\<close>, \<open>"1.5"\<close>, \<open>"-3"\<close>), which names the number; zero is \<open>"0"\<close>. An object is
  the association list of its own properties, keys pairwise different, in the order
  \<open>Object.entries\<close> gives them.
\<close>

datatype json =
  JNull
| JBool bool
| JNum jsstring
| JStr jsstring
| JArr "json list"
| JObj "(jsstring \<times> json) list"

datatype js_error = TypeError

text \<open>\<open>ToBoolean\<close>: \<open>null\<close>, \<open>false\<close>, zero and the empty string are falsy.\<close>

fun truthy :: "json \<Rightarrow> bool" where
  "truthy JNull = False"
| "truthy (JBool b) = b"
| "truthy (JNum s) = (s \<noteq> js ''0'')"
| "truthy (JStr s) = (s \<noteq> [])"
| "truthy (JArr xs) = True"
| "truthy (JObj es) = True"

text \<open>\<open>v || ''\<close>, where \<open>None\<close> is \<open>undefined\<close>.\<close>

definition or_blank :: "json option \<Rightarrow> json" where
  "or_blank v = (case v of None \<Rightarrow> JStr [] | Some x \<Rightarrow> if truthy x then x else JStr [])"

text \<open>
  \<open>String(v)\<close>, with \<open>None\<close> for a thrown \<open>TypeError\<close>. An array joins its elements
  with commas, \<open>null\<close> elements as empty strings. An object prints as
  \<open>[object Object]\<close> through the inherited \<open>toString\<close>; an own property \<open>toString\<close>
  hides that method and is not callable, and the inherited \<open>valueOf\<close> returns the object
  itself, so the conversion throws.
\<close>

fun to_String :: "json \<Rightarrow> jsstring option"
  and elements_String :: "json list \<Rightarrow> jsstring list option" where
  "to_String JNull = Some (js ''null'')"
| "to_String (JBool b) = Some (if b then js ''true'' else js ''false'')"
| "to_String (JNum s) = Some s"
| "to_String (JStr s) = Some s"
| "to_String (JArr xs) = map_option (join (js '','')) (elements_String xs)"
| "to_String (JObj es) = (if js ''toString'' \<in> set (map fst es) then None else Some (js ''[object Object]''))"
| "elements_String [] = Some []"
| "elements_String (x # xs) =
     (case (if x = JNull then Some [] else to_String x) of
        None \<Rightarrow> None
      | Some s \<Rightarrow> (case elements_String xs of None \<Rightarrow> None | Some ss \<Rightarrow> Some (s # ss)))"

text \<open>
  \<open>v.k\<close> for a value \<open>v\<close> other than \<open>null\<close> and a property name that no prototype
  defines (\<open>id\<close>, \<open>text\<close>, \<open>metadata\<close>, \<open>page_title\<close>, \<open>source\<close>, \<open>license\<close>): the own
  property of an object, \<open>undefined\<close> (\<open>None\<close>) otherwise. On \<open>null\<close> the access throws.
\<close>

definition get_own :: "json \<Rightarrow> jsstring \<Rightarrow> json option" where
  "get_own v k = (case v of JObj es \<Rightarrow> map_of es k | _ \<Rightarrow> None)"

text \<open>
  \<open>Object.entries(v)\<close> for a value other than \<open>null\<close>: the properties of an object, the
  elements of an array and the code units of a string under their indices, nothing for a
  number or a boolean.
\<close>

fun own_entries :: "json \<Rightarrow> (jsstring \<times> json) list" where
  "own_entries (JObj es) = es"
| "own_entries (JArr xs) = map (\<lambda>(i, x). (show_nat i, x)) (enumerate 0 xs)"
| "own_entries (JStr s) = map (\<lambda>(i, c). (show_nat i, JStr [c])) (enumerate 0 s)"
| "own_entries v = []"

section \<open>Data model\<close>

text \<open>
  The project JSON: categories hold chunks; a chunk has the stable \<open>_uid\<close>, the
  user-facing \<open>id\<close>, its text, the \<open>metadata\<close> object and the \<open>customFields\<close> array of
  \<open>{key, value}\<close> pairs. The type parameter is the type of the values: strings in the
  project JSON the application writes, any JSON value in a project made from an imported
  file. A project of the \<open>localStorage\<close> Store has an \<open>id\<close>; a snapshot served by the
  history API is the same JSON without it, and the differ reads the \<open>categories\<close> only.
\<close>

record 'v chunk_of =
  ch_uid :: jsstring
  ch_id :: 'v
  ch_text :: 'v
  ch_metadata :: "(jsstring, 'v) jsmap"
  ch_customFields :: "(jsstring \<times> 'v) list"

record 'v category_of =
  cat_id :: jsstring
  cat_name :: jsstring
  cat_expanded :: bool
  cat_chunks :: "'v chunk_of list"

record 'v project_of =
  proj_id :: jsstring
  proj_name :: jsstring
  proj_createdAt :: jsstring
  categories :: "'v category_of list"

type_synonym chunk = "jsstring chunk_of"
type_synonym category = "jsstring category_of"
type_synonym project = "jsstring project_of"

section \<open>The snapshot differ (\<open>App._computeDiff\<close>)\<close>

datatype dtype = added | deleted | modified

record diff =
  d_type :: dtype
  d_text :: jsstring

subsection \<open>The change records, one per template literal of the source\<close>

definition category_listed :: "category \<Rightarrow> diff" where
  "category_listed cat = \<lparr>d_type = added,
     d_text = js ''Category '' @ quoted (cat_name cat) @ js '' ('' @
              show_nat (length (cat_chunks cat)) @ js '' chunks)''\<rparr>"

definition chunk_listed :: "chunk \<Rightarrow> category \<Rightarrow> diff" where
  "chunk_listed ch cat = \<lparr>d_type = added,
     d_text = js ''Chunk '' @ quoted (ch_id ch) @ js '' in '' @ quoted (cat_name cat)\<rparr>"

definition category_removed :: "category \<Rightarrow> diff" where
  "category_removed cat = \<lparr>d_type = deleted,
     d_text = js ''Category '' @ quoted (cat_name cat) @ js '' removed ('' @
              show_nat (length (cat_chunks cat)) @ js '' chunks)''\<rparr>"

definition category_added :: "category \<Rightarrow> diff" where
  "category_added cat = \<lparr>d_type = added,
     d_text = js ''Category '' @ quoted (cat_name cat) @ js '' added ('' @
              show_nat (length (cat_chunks cat)) @ js '' chunks)''\<rparr>"

definition category_renamed :: "category \<Rightarrow> category \<Rightarrow> diff" where
  "category_renamed prevCat currCat = \<lparr>d_type = modified,
     d_text = js ''Category renamed: '' @ quoted (cat_name prevCat) @ arrow @
              quoted (cat_name currCat)\<rparr>"

definition chunk_removed :: "chunk \<Rightarrow> category \<Rightarrow> diff" where
  "chunk_removed ch currCat = \<lparr>d_type = deleted,
     d_text = js ''Chunk '' @ quoted (ch_id ch) @ js '' removed from '' @ quoted (cat_name currCat)\<rparr>"

definition chunk_added :: "chunk \<Rightarrow> category \<Rightarrow> diff" where
  "chunk_added ch currCat = \<lparr>d_type = added,
     d_text = js ''Chunk '' @ quoted (ch_id ch) @ js '' added to '' @ quoted (cat_name currCat)\<rparr>"

definition chunk_modified :: "chunk \<Rightarrow> category \<Rightarrow> jsstring list \<Rightarrow> diff" where
  "chunk_modified currCh currCat changes = \<lparr>d_type = modified,
     d_text = js ''Chunk '' @ quoted (ch_id currCh) @ js '' in '' @ quoted (cat_name currCat) @
              js '': '' @ join (js '', '') changes\<rparr>"

definition chunk_moved :: "chunk \<Rightarrow> jsstring \<Rightarrow> jsstring \<Rightarrow> diff" where
  "chunk_moved currCh prevCat currCat = \<lparr>d_type = modified,
     d_text = js ''Chunk '' @ quoted (ch_id currCh) @ js '' moved: '' @ quoted prevCat @ arrow @
              quoted currCat\<rparr>"

text \<open>The entries of \<open>changes\<close>. \<open>${pv || ''}\<close> prints \<open>undefined\<close> and the empty
  string as nothing, a string as itself, and an inherited member, which is truthy, by its
  text.\<close>

definition or_empty :: "jsval \<Rightarrow> jsstring" where
  "or_empty v = (case v of Undefined \<Rightarrow> [] | Str s \<Rightarrow> s | Inherited t \<Rightarrow> t)"

definition id_change :: "chunk \<Rightarrow> chunk \<Rightarrow> jsstring" where
  "id_change prevCh currCh = js ''id: '' @ quoted (ch_id prevCh) @ arrow @ quoted (ch_id currCh)"

definition text_change :: "chunk \<Rightarrow> chunk \<Rightarrow> jsstring" where
  "text_change prevCh currCh =
     js ''text changed ('' @ show_nat (length (ch_text prevCh)) @ arrow @
     show_nat (length (ch_text currCh)) @ js '' chars)''"

definition meta_change :: "jsstring \<Rightarrow> jsval \<Rightarrow> jsval \<Rightarrow> jsstring" where
  "meta_change k pv cv = k @ js '': '' @ quoted (or_empty pv) @ arrow @ quoted (or_empty cv)"

subsection \<open>The loops\<close>

text \<open>The branch for a missing previous snapshot.\<close>

definition diff_from_nothing :: "project \<Rightarrow> diff list" where
  "diff_from_nothing cur =
     foldl (\<lambda>diffs cat.
        foldl (\<lambda>diffs ch. diffs @ [chunk_listed ch cat]) (diffs @ [category_listed cat]) (cat_chunks cat))
       [] (categories cur)"

text \<open>\<open>prevCats\<close> and \<open>currCats\<close>: the categories of a snapshot by \<open>id\<close>.\<close>

definition cats_by_id :: "project \<Rightarrow> (jsstring, category) jsmap" where
  "cats_by_id snap = new_Map (map (\<lambda>c. (cat_id c, c)) (categories snap))"

text \<open>\<open>prevChunks\<close> and \<open>currChunks\<close>: the chunks of a category by \<open>_uid\<close>.\<close>

definition chunks_by_uid :: "category \<Rightarrow> (jsstring, chunk) jsmap" where
  "chunks_by_uid cat = new_Map (map (\<lambda>ch. (ch_uid ch, ch)) (cat_chunks cat))"

text \<open>The loop over \<open>prevCats\<close> for deleted categories.\<close>

definition deleted_categories ::
  "(jsstring, category) jsmap \<Rightarrow> (jsstring, category) jsmap \<Rightarrow> diff list \<Rightarrow> diff list" where
  "deleted_categories prevCats currCats diffs0 =
     foldl (\<lambda>diffs (i, cat).
        if \<not> map_has currCats i then diffs @ [category_removed cat] else diffs) diffs0 prevCats"

text \<open>The loop over \<open>currCats\<close> for added categories.\<close>

definition added_categories ::
  "(jsstring, category) jsmap \<Rightarrow> (jsstring, category) jsmap \<Rightarrow> diff list \<Rightarrow> diff list" where
  "added_categories prevCats currCats diffs0 =
     foldl (\<lambda>diffs (i, cat).
        if \<not> map_has prevCats i then diffs @ [category_added cat] else diffs) diffs0 currCats"

text \<open>
  The list \<open>changes\<close> built for a chunk present in both snapshots of a category: the
  user-facing id, the text (as lengths) and every key of either \<open>metadata\<close> object.
  \<open>customFields\<close> is not read.
\<close>

definition chunk_changes :: "(jsstring, jsstring) jsmap \<Rightarrow> chunk \<Rightarrow> chunk \<Rightarrow> jsstring list" where
  "chunk_changes proto prevCh currCh =
     (let changes0 = [];
          changes1 = (if ch_id prevCh \<noteq> ch_id currCh
                      then changes0 @ [id_change prevCh currCh] else changes0);
          changes2 = (if ch_text prevCh \<noteq> ch_text currCh
                      then changes1 @ [text_change prevCh currCh] else changes1);
          metaKeys = new_Set (keys (ch_metadata prevCh) @ keys (ch_metadata currCh))
      in foldl (\<lambda>changes k.
           let pv = obj_read proto (ch_metadata prevCh) k;
               cv = obj_read proto (ch_metadata currCh) k
           in if pv \<noteq> cv then changes @ [meta_change k pv cv] else changes) changes2 metaKeys)"

text \<open>The three loops over the chunks of one category present in both snapshots.\<close>

definition deleted_chunks ::
  "(jsstring, chunk) jsmap \<Rightarrow> (jsstring, chunk) jsmap \<Rightarrow> category \<Rightarrow> diff list \<Rightarrow> diff list" where
  "deleted_chunks prevChunks currChunks currCat diffs0 =
     foldl (\<lambda>diffs (u, ch).
        if \<not> map_has currChunks u then diffs @ [chunk_removed ch currCat] else diffs) diffs0 prevChunks"

definition added_chunks ::
  "(jsstring, chunk) jsmap \<Rightarrow> (jsstring, chunk) jsmap \<Rightarrow> category \<Rightarrow> diff list \<Rightarrow> diff list" where
  "added_chunks prevChunks currChunks currCat diffs0 =
     foldl (\<lambda>diffs (u, ch).
        if \<not> map_has prevChunks u then diffs @ [chunk_added ch currCat] else diffs) diffs0 currChunks"

definition modified_chunks ::
  "(jsstring, jsstring) jsmap \<Rightarrow> (jsstring, chunk) jsmap \<Rightarrow> (jsstring, chunk) jsmap \<Rightarrow> category \<Rightarrow>
   diff list \<Rightarrow> diff list" where
  "modified_chunks proto prevChunks currChunks currCat diffs0 =
     foldl (\<lambda>diffs (u, currCh).
        case map_get prevChunks u of
          None \<Rightarrow> diffs
        | Some prevCh \<Rightarrow>
            (let changes = chunk_changes proto prevCh currCh
             in if length changes > 0 then diffs @ [chunk_modified currCh currCat changes] else diffs))
       diffs0 currChunks"

text \<open>The loop over \<open>currCats\<close> for categories present in both snapshots.\<close>

definition modified_categories ::
  "(jsstring, jsstring) jsmap \<Rightarrow> (jsstring, category) jsmap \<Rightarrow> (jsstring, category) jsmap \<Rightarrow>
   diff list \<Rightarrow> diff list" where
  "modified_categories proto prevCats currCats diffs0 =
     foldl (\<lambda>diffs (i, currCat).
        case map_get prevCats i of
          None \<Rightarrow> diffs
        | Some prevCat \<Rightarrow>
            (let diffs1 = (if cat_name prevCat \<noteq> cat_name currCat
                           then diffs @ [category_renamed prevCat currCat] else diffs);
                 prevChunks = chunks_by_uid prevCat;
                 currChunks = chunks_by_uid currCat;
                 diffs2 = deleted_chunks prevChunks currChunks currCat diffs1;
                 diffs3 = added_chunks prevChunks currChunks currCat diffs2
             in modified_chunks proto prevChunks currChunks currCat diffs3)) diffs0 currCats"

text \<open>
  \<open>allPrevChunkUids\<close> and \<open>allCurrChunkUids\<close>: every chunk of a snapshot by \<open>_uid\<close>, with
  the name of its category.
\<close>

definition allChunkUids :: "project \<Rightarrow> (jsstring, jsstring \<times> chunk) jsmap" where
  "allChunkUids snap =
     foldl (\<lambda>m cat. foldl (\<lambda>m ch. map_set m (ch_uid ch) (cat_name cat, ch)) m (cat_chunks cat))
       [] (categories snap)"

text \<open>
  The two searches of the reconciliation loop: the first added record whose text has the
  quoted id and the quoted category name of the chunk as it is now, and the first deleted
  record whose text has the quoted id and category name of the chunk as it was.
\<close>

definition addIdx_of :: "diff list \<Rightarrow> chunk \<Rightarrow> jsstring \<Rightarrow> int" where
  "addIdx_of diffs currCh currCat =
     findIndex (\<lambda>d. d_type d = added \<and> str_includes (d_text d) (quoted (ch_id currCh)) \<and>
                     str_includes (d_text d) (quoted currCat)) diffs"

definition delIdx_of :: "diff list \<Rightarrow> chunk \<Rightarrow> jsstring \<Rightarrow> int" where
  "delIdx_of diffs prevCh prevCat =
     findIndex (\<lambda>d. d_type d = deleted \<and> str_includes (d_text d) (quoted (ch_id prevCh)) \<and>
                     str_includes (d_text d) (quoted prevCat)) diffs"

text \<open>
  The body of the reconciliation loop, for one entry of \<open>allCurrChunkUids\<close>: when the
  chunk was under another category name, remove what the two searches found and push the
  move.
\<close>

definition move_step ::
  "(jsstring, jsstring \<times> chunk) jsmap \<Rightarrow> diff list \<Rightarrow> jsstring \<times> (jsstring \<times> chunk) \<Rightarrow> diff list" where
  "move_step allPrev diffs e =
     (case e of (u, (currCat, currCh)) \<Rightarrow>
        (case map_get allPrev u of
           None \<Rightarrow> diffs
         | Some (prevCat, prevCh) \<Rightarrow>
             if prevCat \<noteq> currCat
             then (let addIdx = addIdx_of diffs currCh currCat;
                       delIdx = delIdx_of diffs prevCh prevCat;
                       diffs1 = (if addIdx \<noteq> -1 then splice1 diffs addIdx else diffs);
                       diffs2 = (if delIdx \<noteq> -1
                                 then splice1 diffs1 (if delIdx > addIdx then delIdx - 1 else delIdx)
                                 else diffs1)
                   in diffs2 @ [chunk_moved currCh prevCat currCat])
             else diffs))"

definition moved_chunks :: "project \<Rightarrow> project \<Rightarrow> diff list \<Rightarrow> diff list" where
  "moved_chunks prv cur diffs0 = foldl (move_step (allChunkUids prv)) diffs0 (allChunkUids cur)"

definition computeDiff :: "(jsstring, jsstring) jsmap \<Rightarrow> project option \<Rightarrow> project \<Rightarrow> diff list" where
  "computeDiff proto prv cur =
     (case prv of
        None \<Rightarrow> diff_from_nothing cur
      | Some p \<Rightarrow>
          (let prevCats = cats_by_id p;
               currCats = cats_by_id cur;
               diffs1 = deleted_categories prevCats currCats [];
               diffs2 = added_categories prevCats currCats diffs1;
               diffs3 = modified_categories proto prevCats currCats diffs2
           in moved_chunks p cur diffs3))"

subsection \<open>The order of the records, stated on its own\<close>

text \<open>
  The records of each kind as lists, in the encounter order of the \<open>Map\<close> they come from.
\<close>

definition category_deletions :: "project \<Rightarrow> project \<Rightarrow> diff list" where
  "category_deletions prv cur =
     concat (map (\<lambda>(i, cat). if map_has (cats_by_id cur) i then [] else [category_removed cat])
                 (cats_by_id prv))"

definition category_additions :: "project \<Rightarrow> project \<Rightarrow> diff list" where
  "category_additions prv cur =
     concat (map (\<lambda>(i, cat). if map_has (cats_by_id prv) i then [] else [category_added cat])
                 (cats_by_id cur))"

definition chunk_deletions :: "category \<Rightarrow> category \<Rightarrow> diff list" where
  "chunk_deletions prevCat currCat =
     concat (map (\<lambda>(u, ch). if map_has (chunks_by_uid currCat) u then [] else [chunk_removed ch currCat])
                 (chunks_by_uid prevCat))"

definition chunk_additions :: "category \<Rightarrow> category \<Rightarrow> diff list" where
  "chunk_additions prevCat currCat =
     concat (map (\<lambda>(u, ch). if map_has (chunks_by_uid prevCat) u then [] else [chunk_added ch currCat])
                 (chunks_by_uid currCat))"

definition chunk_modification ::
  "(jsstring, jsstring) jsmap \<Rightarrow> chunk \<Rightarrow> chunk \<Rightarrow> category \<Rightarrow> diff list" where
  "chunk_modification proto prevCh currCh currCat =
     (if chunk_changes proto prevCh currCh = [] then []
      else [chunk_modified currCh currCat (chunk_changes proto prevCh currCh)])"

definition chunk_modifications ::
  "(jsstring, jsstring) jsmap \<Rightarrow> category \<Rightarrow> category \<Rightarrow> diff list" where
  "chunk_modifications proto prevCat currCat =
     concat (map (\<lambda>(u, currCh). case map_get (chunks_by_uid prevCat) u of
                                   None \<Rightarrow> []
                                 | Some prevCh \<Rightarrow> chunk_modification proto prevCh currCh currCat)
                 (chunks_by_uid currCat))"

text \<open>
  What one category of the current snapshot contributes: nothing when it is new, else its
  rename record followed by its chunk deletions, additions and modifications.
\<close>

definition category_changes ::
  "(jsstring, jsstring) jsmap \<Rightarrow> project \<Rightarrow> jsstring \<times> category \<Rightarrow> diff list" where
  "category_changes proto prv e =
     (case e of (i, currCat) \<Rightarrow>
        (case map_get (cats_by_id prv) i of
           None \<Rightarrow> []
         | Some prevCat \<Rightarrow>
             (if cat_name prevCat \<noteq> cat_name currCat then [category_renamed prevCat currCat] else []) @
             chunk_deletions prevCat currCat @ chunk_additions prevCat currCat @
             chunk_modifications proto prevCat currCat))"

definition chunk_move :: "project \<Rightarrow> jsstring \<times> (jsstring \<times> chunk) \<Rightarrow> diff list" where
  "chunk_move prv e =
     (case e of (u, (currCat, currCh)) \<Rightarrow>
        (case map_get (allChunkUids prv) u of
           None \<Rightarrow> []
         | Some (prevCat, prevCh) \<Rightarrow>
             if prevCat \<noteq> currCat then [chunk_moved currCh prevCat currCat] else []))"

definition chunk_moves :: "project \<Rightarrow> project \<Rightarrow> diff list" where
  "chunk_moves prv cur = concat (map (chunk_move prv) (allChunkUids cur))"

definition before_moves :: "(jsstring, jsstring) jsmap \<Rightarrow> project \<Rightarrow> project \<Rightarrow> diff list" where
  "before_moves proto prv cur =
     category_deletions prv cur @ category_additions prv cur @
     concat (map (category_changes proto prv) (cats_by_id cur))"







section \<open>The \<open>localStorage\<close>-backed Store\<close>

text \<open>
  \<open>this.data\<close>: the projects and the id of the current one. \<open>_save\<close> writes the data to
  \<open>localStorage\<close> and calls the listeners; it does not change the data, so it has no
  counterpart here. \<open>uid()\<close> is random: each fresh identifier is a parameter. The editor
  writes strings into the chunks it makes; the chunks of an imported file hold the values
  of the file.
\<close>

record 'v store_data_of =
  projects :: "'v project_of list"
  currentProjectId :: "jsstring option"

type_synonym store_data = "jsstring store_data_of"

text \<open>\<open>!this.data.currentProjectId\<close> holds for \<open>null\<close> and for the empty string.\<close>

definition getCurrentProject :: "'v store_data_of \<Rightarrow> 'v project_of option" where
  "getCurrentProject d =
     (case currentProjectId d of
        None \<Rightarrow> None
      | Some i \<Rightarrow> if i = [] then None else find (\<lambda>p. proj_id p = i) (projects d))"

text \<open>
  \<open>find\<close> returns the first matching object and the code then mutates it in place: the
  model replaces the first matching element.
\<close>

fun update_first :: "('a \<Rightarrow> bool) \<Rightarrow> ('a \<Rightarrow> 'a) \<Rightarrow> 'a list \<Rightarrow> 'a list" where
  "update_first p f [] = []"
| "update_first p f (x # xs) = (if p x then f x # xs else x # update_first p f xs)"

definition duplicateChunk ::
  "store_data \<Rightarrow> jsstring \<Rightarrow> jsstring \<Rightarrow> jsstring \<Rightarrow> store_data \<times> (jsstring \<times> jsstring) option" where
  "duplicateChunk d catId chunkUid newUid =
     (case getCurrentProject d of
        None \<Rightarrow> (d, None)
      | Some project \<Rightarrow>
          (case find (\<lambda>c. cat_id c = catId) (categories project) of
             None \<Rightarrow> (d, None)
           | Some cat \<Rightarrow>
               (case find (\<lambda>ch. ch_uid ch = chunkUid) (cat_chunks cat) of
                  None \<Rightarrow> (d, None)
                | Some orig \<Rightarrow>
                    (let copy = orig\<lparr>ch_uid := newUid,
                                      ch_id := (if ch_id orig \<noteq> [] then ch_id orig @ js ''_copy'' else [])\<rparr>;
                         project' = project\<lparr>categories :=
                                      update_first (\<lambda>c. cat_id c = catId)
                                        (\<lambda>c. c\<lparr>cat_chunks := cat_chunks c @ [copy]\<rparr>) (categories project)\<rparr>
                     in (d\<lparr>projects := update_first (\<lambda>p. Some (proj_id p) = currentProjectId d)
                                          (\<lambda>p. project') (projects d)\<rparr>,
                         Some (catId, newUid))))))"

definition isChunkIdTaken :: "store_data \<Rightarrow> jsstring \<Rightarrow> jsstring \<Rightarrow> bool" where
  "isChunkIdTaken d i excludeUid =
     (if i = [] then False
      else case getCurrentProject d of
             None \<Rightarrow> False
           | Some project \<Rightarrow>
               list_ex (\<lambda>cat. list_ex (\<lambda>chunk. ch_uid chunk \<noteq> excludeUid \<and> ch_id chunk = i) (cat_chunks cat))
                 (categories project))"

text \<open>Every chunk of a project, category by category.\<close>

definition all_chunks :: "'v project_of \<Rightarrow> 'v chunk_of list" where
  "all_chunks p = concat (map cat_chunks (categories p))"

subsection \<open>Import and export\<close>

definition STANDARD_META :: "jsstring list" where
  "STANDARD_META = [js ''page_title'', js ''source'', js ''license'']"

text \<open>
  The loop over \<open>Object.entries(meta)\<close>: each key outside \<open>STANDARD_META\<close> is pushed with
  \<open>String(value ?? '')\<close>, which throws for an object whose \<open>toString\<close> is not a function.
\<close>

fun custom_fields ::
  "(jsstring \<times> json) list \<Rightarrow> (jsstring \<times> json) list \<Rightarrow> js_error + (jsstring \<times> json) list" where
  "custom_fields customFields [] = Inr customFields"
| "custom_fields customFields ((key, value) # es) =
     (if key \<notin> set STANDARD_META
      then (case to_String (if value = JNull then JStr [] else value) of
              None \<Rightarrow> Inl TypeError
            | Some s \<Rightarrow> custom_fields (customFields @ [(key, JStr s)]) es)
      else custom_fields customFields es)"

text \<open>
  The body of the loop over \<open>jsonArray\<close> for one \<open>entry\<close>, a value of the parsed file:
  \<open>entry.metadata\<close> throws on \<open>null\<close>; \<open>meta\<close> is \<open>entry.metadata || {}\<close>; the chunk
  takes \<open>entry.id || ''\<close>, \<open>entry.text || ''\<close> and the three reserved keys of \<open>meta\<close>
  in the same way.
\<close>

definition import_entry :: "jsstring \<Rightarrow> json \<Rightarrow> js_error + json chunk_of" where
  "import_entry u entry =
     (if entry = JNull then Inl TypeError
      else
        (let meta = (case get_own entry (js ''metadata'') of
                       None \<Rightarrow> JObj []
                     | Some m \<Rightarrow> if truthy m then m else JObj [])
         in case custom_fields [] (own_entries meta) of
              Inl e \<Rightarrow> Inl e
            | Inr customFields \<Rightarrow>
                Inr \<lparr>ch_uid = u,
                     ch_id = or_blank (get_own entry (js ''id'')),
                     ch_text = or_blank (get_own entry (js ''text'')),
                     ch_metadata = [(js ''page_title'', or_blank (get_own meta (js ''page_title''))),
                                    (js ''source'', or_blank (get_own meta (js ''source''))),
                                    (js ''license'', or_blank (get_own meta (js ''license'')))],
                     ch_customFields = customFields\<rparr>))"

fun import_chunks ::
  "(nat \<Rightarrow> jsstring) \<Rightarrow> json chunk_of list \<Rightarrow> json list \<Rightarrow> js_error + json chunk_of list" where
  "import_chunks uids chunks [] = Inr chunks"
| "import_chunks uids chunks (entry # es) =
     (case import_entry (uids (length chunks)) entry of
        Inl e \<Rightarrow> Inl e
      | Inr chunk \<Rightarrow> import_chunks uids (chunks @ [chunk]) es)"

text \<open>
  \<open>importProject\<close>, called with the array \<open>JSON.parse\<close> gave for the file: \<open>pid\<close>, \<open>cid\<close>
  and \<open>uids k\<close> are the results of \<open>uid()\<close> for the project, the category and the \<open>k\<close>-th
  chunk, \<open>now\<close> is \<open>new Date().toISOString()\<close>. The project is pushed after the loop, so an
  error thrown in the loop leaves the data as it was.
\<close>

definition importProject ::
  "json store_data_of \<Rightarrow> jsstring \<Rightarrow> json list \<Rightarrow> jsstring \<Rightarrow> jsstring \<Rightarrow> jsstring \<Rightarrow> (nat \<Rightarrow> jsstring) \<Rightarrow>
   js_error + json store_data_of \<times> json project_of" where
  "importProject d name jsonArray pid now cid uids =
     (case import_chunks uids [] jsonArray of
        Inl e \<Rightarrow> Inl e
      | Inr chunks \<Rightarrow>
          (let category = \<lparr>cat_id = cid, cat_name = js ''Imported'', cat_expanded = True, cat_chunks = chunks\<rparr>;
               project = \<lparr>proj_id = pid, proj_name = trim name, proj_createdAt = now, categories = [category]\<rparr>
           in Inr (d\<lparr>projects := projects d @ [project], currentProjectId := Some pid\<rparr>, project)))"

text \<open>
  \<open>exportJSON\<close>: each chunk becomes \<open>{ id, text, metadata }\<close>, where \<open>metadata\<close> is a copy
  of the chunk's metadata into which every custom field with a truthy key that is not
  blank is written under the trimmed key, with \<open>cf.value || ''\<close>.
\<close>

definition export_chunk :: "json chunk_of \<Rightarrow> json" where
  "export_chunk chunk =
     JObj [(js ''id'', ch_id chunk),
           (js ''text'', ch_text chunk),
           (js ''metadata'',
            JObj (foldl (\<lambda>md (key, value).
                           if key \<noteq> [] \<and> trim key \<noteq> [] then obj_set md (trim key) (or_blank (Some value))
                           else md)
                    (ch_metadata chunk) (ch_customFields chunk)))]"

definition exportJSON :: "json store_data_of \<Rightarrow> json list option" where
  "exportJSON d =
     (case getCurrentProject d of
        None \<Rightarrow> None
      | Some project \<Rightarrow>
          Some (foldl (\<lambda>result cat. foldl (\<lambda>result chunk. result @ [export_chunk chunk]) result (cat_chunks cat))
                  [] (categories project)))"

text \<open>
  The records C5 is about. A well-formed record is an object with the keys \<open>id\<close>,
  \<open>text\<close> and \<open>metadata\<close>, whose \<open>metadata\<close> is an object with the three reserved
  keys.
\<close>

definition metadata_of :: "json \<Rightarrow> (jsstring \<times> json) list" where
  "metadata_of e = (case get_own e (js ''metadata'') of Some (JObj md) \<Rightarrow> md | _ \<Rightarrow> [])"

definition well_formed :: "json \<Rightarrow> bool" where
  "well_formed e =
     (case e of
        JObj fs \<Rightarrow>
          distinct (keys fs) \<and>
          list_all (\<lambda>k. k \<in> set (keys fs)) [js ''id'', js ''text'', js ''metadata''] \<and>
          (case map_of fs (js ''metadata'') of
             Some (JObj md) \<Rightarrow> distinct (keys md) \<and> list_all (\<lambda>k. k \<in> set (keys md)) STANDARD_META
           | _ \<Rightarrow> False)
      | _ \<Rightarrow> False)"

text \<open>The custom keys of a record are neither blank nor padded with white space, and none
  is \<open>__proto__\<close>.\<close>

definition plain_custom_keys :: "json \<Rightarrow> bool" where
  "plain_custom_keys e =
     list_all (\<lambda>k. k \<in> set STANDARD_META \<or> (k \<noteq> [] \<and> trim k = k \<and> k \<noteq> js ''__proto__''))
       (keys (metadata_of e))"

text \<open>
  The values of a record are plain: the id, the text and the values of the reserved keys
  are strings or other truthy values, which \<open>v || ''\<close> returns as they are, and the values
  of the custom keys are strings.
\<close>

definition kept :: "json \<Rightarrow> bool" where
  "kept v = (case v of JStr s \<Rightarrow> True | _ \<Rightarrow> truthy v)"

definition plain_values :: "json \<Rightarrow> bool" where
  "plain_values e =
     ((case get_own e (js ''id'') of None \<Rightarrow> True | Some v \<Rightarrow> kept v) \<and>
      (case get_own e (js ''text'') of None \<Rightarrow> True | Some v \<Rightarrow> kept v) \<and>
      list_all (\<lambda>(k, v). if k \<in> set STANDARD_META then kept v else (case v of JStr s \<Rightarrow> True | _ \<Rightarrow> False))
        (metadata_of e))"

text \<open>What the round trip compares: id, text and the metadata as a finite map.\<close>

definition content :: "json \<Rightarrow> json option \<times> json option \<times> (jsstring \<rightharpoonup> json)" where
  "content e = (get_own e (js ''id''), get_own e (js ''text''), map_of (metadata_of e))"

section \<open>The commit log\<close>

text \<open>
  The history engine is in \<open>lib/store.js\<close>, which is not among the sources; the client
  only reads its results through the REST API.
\<close>

record commit_meta =
  c_id :: jsstring
  c_timestamp :: nat
  c_source :: jsstring
  c_action :: jsstring
  c_summary :: jsstring
  c_stats :: "nat \<times> nat"

record commit =
  c_meta :: commit_meta
  c_snapshot :: project

text \<open>Modelled from the spec: the capacity N of the commit log of \<open>lib/store.js\<close>, fixed at 50.\<close>

definition MAX_COMMITS :: nat where
  "MAX_COMMITS = 50"

text \<open>Modelled from the spec: \<open>CommitLog.append\<close> of \<open>lib/store.js\<close>, which stores the new
  commit after evicting the oldest entry first if the log is at capacity.\<close>

definition append_commit :: "commit list \<Rightarrow> commit \<Rightarrow> commit list" where
  "append_commit log c = (if length log \<ge> MAX_COMMITS then tl log @ [c] else log @ [c])"

text \<open>Modelled from the spec: \<open>CommitLog.list\<close> of \<open>lib/store.js\<close>, the commits without their
  snapshots, in the log's chronological order.\<close>

definition list_commits :: "commit list \<Rightarrow> commit_meta list" where
  "list_commits log = map c_meta log"

text \<open>Modelled from the spec: one log per dataset name; every successful mutation of a
  dataset appends one commit to that dataset's log.\<close>

definition mutate :: "(jsstring \<Rightarrow> commit list) \<Rightarrow> jsstring \<times> commit \<Rightarrow> (jsstring \<Rightarrow> commit list)" where
  "mutate logs m = (case m of (name, c) \<Rightarrow> logs(name := append_commit (logs name) c))"

definition run_mutations :: "(jsstring \<times> commit) list \<Rightarrow> (jsstring \<Rightarrow> commit list)" where
  "run_mutations ms = foldl mutate (\<lambda>name. []) ms"

text \<open>The commits of the mutations of one dataset, in the order they happened.\<close>

definition commits_of :: "jsstring \<Rightarrow> (jsstring \<times> commit) list \<Rightarrow> commit list" where
  "commits_of name ms = map snd (filter (\<lambda>m. fst m = name) ms)"

section \<open>The session server\<close>

text \<open>
  A client handle is a WebSocket object, known by its identity. A session holds the two
  \<open>Set\<close>s of handles, in insertion order, and its creation time in milliseconds.
\<close>

type_synonym ws = nat

record session =
  browsers :: "ws list"
  mcpClients :: "ws list"
  createdAt :: int

text \<open>The payloads the server sends: \<open>{project}\<close>, \<open>{timestamp}\<close>, \<open>{session, type}\<close>,
  \<open>{message}\<close>, and the result of a store call.\<close>

datatype payload =
  Project jsstring
| Timestamp int
| Joined jsstring jsstring
| Message jsstring
| Result json

record message =
  m_event :: jsstring
  m_data :: payload

text \<open>
  The server state: the registry \<open>sessions\<close> (a \<open>Map\<close> from code to session), and for each
  handle its \<open>readyState\<close> and the messages \<open>send\<close> was called with, oldest first.
\<close>

record server =
  sessions :: "(jsstring, session) jsmap"
  readyState :: "ws \<Rightarrow> int"
  sent :: "ws \<Rightarrow> message list"

text \<open>\<open>Map.prototype.delete\<close>.\<close>

definition map_delete :: "('k, 'v) jsmap \<Rightarrow> 'k \<Rightarrow> ('k, 'v) jsmap" where
  "map_delete m k = filter (\<lambda>e. fst e \<noteq> k) m"

text \<open>\<open>Set.prototype.add\<close> and \<open>Set.prototype.delete\<close>.\<close>

definition set_add :: "'a list \<Rightarrow> 'a \<Rightarrow> 'a list" where
  "set_add s x = (if x \<in> set s then s else s @ [x])"

definition set_delete :: "'a list \<Rightarrow> 'a \<Rightarrow> 'a list" where
  "set_delete s x = removeAll x s"

definition send :: "server \<Rightarrow> ws \<Rightarrow> message \<Rightarrow> server" where
  "send st w msg = st\<lparr>sent := (sent st)(w := sent st w @ [msg])\<rparr>"

definition broadcast :: "server \<Rightarrow> jsstring \<Rightarrow> jsstring \<Rightarrow> payload \<Rightarrow> ws option \<Rightarrow> server" where
  "broadcast st sessionCode event data excludeWs =
     (case map_get (sessions st) sessionCode of
        None \<Rightarrow> st
      | Some session \<Rightarrow>
          foldl (\<lambda>st w. if Some w \<noteq> excludeWs \<and> readyState st w = 1
                         then send st w \<lparr>m_event = event, m_data = data\<rparr> else st)
            st (browsers session @ mcpClients session))"

definition broadcastToBrowsers :: "server \<Rightarrow> jsstring \<Rightarrow> jsstring \<Rightarrow> payload \<Rightarrow> server" where
  "broadcastToBrowsers st sessionCode event data =
     (case map_get (sessions st) sessionCode of
        None \<Rightarrow> st
      | Some session \<Rightarrow>
          foldl (\<lambda>st w. if readyState st w = 1
                         then send st w \<lparr>m_event = event, m_data = data\<rparr> else st)
            st (browsers session))"

text \<open>
  The routes that change a project, in the order of the source: \<open>POST /api/projects\<close>,
  \<open>DELETE /api/projects/:name\<close>, and under \<open>/api/projects/:name\<close> the routes
  \<open>POST categories\<close>, \<open>PUT categories/:catName\<close>, \<open>DELETE categories/:catName\<close>,
  \<open>POST categories/:catId/toggle\<close>, \<open>POST categories/:catName/chunks\<close>,
  \<open>POST categories/:catName/chunks/bulk\<close>, \<open>POST categories/:catId/chunks/blank\<close>,
  \<open>PUT categories/:catId/chunks/:uid\<close>, \<open>DELETE categories/:catId/chunks/:uid\<close>,
  \<open>POST categories/:catId/chunks/:uid/duplicate\<close>, \<open>POST chunks/:chunkId/move\<close> and
  \<open>POST import\<close>.
\<close>

datatype route =
  CreateProject
| DeleteProject
| CreateCategory
| RenameCategory
| DeleteCategory
| ToggleCategory
| AddChunk
| BulkAddChunks
| AddBlankChunk
| UpdateChunk
| DeleteChunk
| DuplicateChunk
| MoveChunk
| ImportJSON

text \<open>
  What the handler of a route passes to \<open>broadcastToBrowsers\<close> after the store call has
  returned \<open>result\<close>, for the project \<open>req.params.name\<close>: the event and its data, or
  \<open>None\<close> for the three handlers that have no such call.
\<close>

fun announcement :: "route \<Rightarrow> jsstring \<Rightarrow> json \<Rightarrow> (jsstring \<times> payload) option" where
  "announcement CreateProject name result = Some (js ''project:created'', Result result)"
| "announcement DeleteProject name result = Some (js ''project:deleted'', Result result)"
| "announcement CreateCategory name result = Some (js ''data:changed'', Project name)"
| "announcement RenameCategory name result = Some (js ''data:changed'', Project name)"
| "announcement DeleteCategory name result = Some (js ''data:changed'', Project name)"
| "announcement ToggleCategory name result = None"
| "announcement AddChunk name result = Some (js ''data:changed'', Project name)"
| "announcement BulkAddChunks name result = Some (js ''data:changed'', Project name)"
| "announcement AddBlankChunk name result = None"
| "announcement UpdateChunk name result = Some (js ''data:changed'', Project name)"
| "announcement DeleteChunk name result = Some (js ''data:changed'', Project name)"
| "announcement DuplicateChunk name result = None"
| "announcement MoveChunk name result = Some (js ''data:changed'', Project name)"
| "announcement ImportJSON name result = Some (js ''data:changed'', Project name)"

text \<open>The status of the answer when the store call throws.\<close>

fun failure_status :: "route \<Rightarrow> nat" where
  "failure_status DeleteProject = 404"
| "failure_status DeleteCategory = 404"
| "failure_status DeleteChunk = 404"
| "failure_status r = 400"

text \<open>
  The handler of a route. The store is in \<open>lib/store.js\<close>, not among the sources: the
  store call of the handler with its arguments is the parameter \<open>operation\<close>, which
  either throws (\<open>Inl\<close> the message) or returns the new store and the result. The handler
  answers the failure status with the message; or it makes its call of
  \<open>broadcastToBrowsers\<close>, when it has one and the session of the request is truthy, and
  answers with the result. The session is \<open>req.body.session\<close>, for the three \<open>DELETE\<close>
  routes \<open>req.query.session\<close>; \<open>None\<close> is a request without it. A session value that is
  not a string is no key of the registry, so it acts as a code that names no session.
\<close>

datatype response = Failure nat jsstring | Json json

definition handle ::
  "route \<Rightarrow> ('s \<Rightarrow> jsstring + 's \<times> json) \<Rightarrow> server \<times> 's \<Rightarrow> jsstring \<Rightarrow> jsstring option \<Rightarrow>
   (server \<times> 's) \<times> response" where
  "handle route operation state name session =
     (case state of (st, store) \<Rightarrow>
        (case operation store of
           Inl e \<Rightarrow> ((st, store), Failure (failure_status route) e)
         | Inr (store', result) \<Rightarrow>
             (let st' = (case announcement route name result of
                           None \<Rightarrow> st
                         | Some (event, data) \<Rightarrow>
                             (case session of
                                None \<Rightarrow> st
                              | Some code \<Rightarrow>
                                  if code \<noteq> [] then broadcastToBrowsers st code event data else st))
              in ((st', store'), Json result))))"

text \<open>
  \<open>GET /api/session\<close>. \<open>generateCode\<close> draws random codes until one is not in the
  registry; the code it returns is the parameter \<open>code\<close>, and \<open>now\<close> is \<open>Date.now()\<close>.
\<close>

definition create_session :: "server \<Rightarrow> jsstring \<Rightarrow> int \<Rightarrow> server" where
  "create_session st code now =
     st\<lparr>sessions := map_set (sessions st) code \<lparr>browsers = [], mcpClients = [], createdAt = now\<rparr>\<rparr>"

text \<open>
  A new WebSocket connection with the query parameters \<open>session\<close> and \<open>type\<close>
  (\<open>None\<close> when absent). An unknown code is answered with an error and \<open>ws.close()\<close>,
  which puts the socket in the state CLOSING (2).
\<close>

definition reject :: "server \<Rightarrow> ws \<Rightarrow> server" where
  "reject st w =
     (send st w \<lparr>m_event = js ''error'', m_data = Message (js ''Invalid session code'')\<rparr>)
       \<lparr>readyState := (readyState st)(w := 2)\<rparr>"

definition ws_connect :: "server \<Rightarrow> jsstring option \<Rightarrow> jsstring option \<Rightarrow> ws \<Rightarrow> int \<Rightarrow> server" where
  "ws_connect st session_param type_param w now =
     (let clientType = (case type_param of
                          None \<Rightarrow> js ''browser''
                        | Some t \<Rightarrow> if t = [] then js ''browser'' else t)
      in case session_param of
           None \<Rightarrow> reject st w
         | Some sessionCode \<Rightarrow>
             (case map_get (sessions st) sessionCode of
                None \<Rightarrow> reject st w
              | Some session \<Rightarrow>
                  if sessionCode = [] then reject st w
                  else
                    (let st1 =
                       (if clientType = js ''mcp''
                        then broadcastToBrowsers
                               (st\<lparr>sessions := map_set (sessions st) sessionCode
                                      (session\<lparr>mcpClients := set_add (mcpClients session) w\<rparr>)\<rparr>)
                               sessionCode (js ''mcp:connected'') (Timestamp now)
                        else st\<lparr>sessions := map_set (sessions st) sessionCode
                                 (session\<lparr>browsers := set_add (browsers session) w\<rparr>)\<rparr>)
                     in send st1 w \<lparr>m_event = js ''connected'',
                                     m_data = Joined sessionCode clientType\<rparr>)))"

text \<open>The \<open>message\<close> handler of a connection of the session \<open>sessionCode\<close>, for a message
  that parses as \<open>{event, data}\<close>.\<close>

definition ws_message :: "server \<Rightarrow> jsstring \<Rightarrow> jsstring \<Rightarrow> payload \<Rightarrow> server" where
  "ws_message st sessionCode event data =
     (if event = js ''data:changed'' then broadcastToBrowsers st sessionCode (js ''data:changed'') data
      else st)"

text \<open>
  The \<open>close\<close> handler of a connection that joined the session \<open>sessionCode\<close> as
  \<open>clientType\<close>. The handler holds the session object it looked up when the connection
  was made; a session with a member is never deleted from the registry, so this is the
  object the registry has under \<open>sessionCode\<close>, and the model looks it up there.
\<close>

definition leave :: "jsstring \<Rightarrow> ws \<Rightarrow> session \<Rightarrow> session" where
  "leave clientType w session =
     (if clientType = js ''mcp'' then session\<lparr>mcpClients := set_delete (mcpClients session) w\<rparr>
      else session\<lparr>browsers := set_delete (browsers session) w\<rparr>)"

definition ws_close :: "server \<Rightarrow> jsstring \<Rightarrow> jsstring \<Rightarrow> ws \<Rightarrow> int \<Rightarrow> server" where
  "ws_close st sessionCode clientType w now =
     (case map_get (sessions st) sessionCode of
        None \<Rightarrow> st
      | Some session \<Rightarrow>
          (let session' = leave clientType w session;
               st1 = st\<lparr>sessions := map_set (sessions st) sessionCode session'\<rparr>;
               st2 = (if clientType = js ''mcp''
                      then broadcastToBrowsers st1 sessionCode (js ''mcp:disconnected'') (Timestamp now)
                      else st1)
           in if length (browsers session') = 0 \<and> length (mcpClients session') = 0
              then st2\<lparr>sessions := map_delete (sessions st2) sessionCode\<rparr>
              else st2))"

text \<open>
  The sweep run every 30 minutes, at time \<open>now\<close>: the loop visits the entries of the
  registry in order and deletes the entry it is at when the session is empty and old.
\<close>

definition sweep :: "server \<Rightarrow> int \<Rightarrow> server" where
  "sweep st now =
     st\<lparr>sessions :=
          foldl (\<lambda>m (code, session).
                   if length (browsers session) = 0 \<and> length (mcpClients session) = 0 \<and>
                      now - createdAt session > 30 * 60 * 1000
                   then map_delete m code else m)
            (sessions st) (sessions st)\<rparr>"

text \<open>
  What can happen to the server state: a session is requested, a client connects, sends a
  message or disconnects, the sweep timer fires, or a request arrives for one of the routes
  above, whose store call returns a result or throws (\<open>None\<close>).
\<close>

datatype event =
  Requested jsstring int
| Connected "jsstring option" "jsstring option" ws int
| Messaged jsstring jsstring payload
| Closed jsstring jsstring ws int
| Swept int
| Posted route jsstring "jsstring option" "json option"

definition step :: "server \<Rightarrow> event \<Rightarrow> server" where
  "step st e =
     (case e of
        Requested code now \<Rightarrow> create_session st code now
      | Connected session_param type_param w now \<Rightarrow> ws_connect st session_param type_param w now
      | Messaged sessionCode ev data \<Rightarrow> ws_message st sessionCode ev data
      | Closed sessionCode clientType w now \<Rightarrow> ws_close st sessionCode clientType w now
      | Swept now \<Rightarrow> sweep st now
      | Posted route name session result \<Rightarrow>
          fst (fst (handle route (\<lambda>store. case result of None \<Rightarrow> Inl [] | Some r \<Rightarrow> Inr (store, r))
                      (st, ()) name session)))"

section \<open>Example data\<close>

text \<open>
  \<open>Object.prototype\<close> as V8 has it: each method prints as
  \<open>function name() { [native code] }\<close>, and \<open>__proto__\<close> of a plain object is
  \<open>Object.prototype\<close> itself, which prints as \<open>[object Object]\<close>.
\<close>

definition native :: "string \<Rightarrow> jsstring" where
  "native n = js (''function '' @ n @ ''() { [native code] }'')"

definition v8_prototype :: "(jsstring, jsstring) jsmap" where
  "v8_prototype =
     (js ''constructor'', native ''Object'') #
     map (\<lambda>n. (js n, native n))
       [''__defineGetter__'', ''__defineSetter__'', ''hasOwnProperty'', ''__lookupGetter__'',
        ''__lookupSetter__'', ''isPrototypeOf'', ''propertyIsEnumerable'', ''toString'', ''valueOf'',
        ''toLocaleString''] @
     [(js ''__proto__'', js ''[object Object]'')]"

definition mk_chunk ::
  "string \<Rightarrow> string \<Rightarrow> string \<Rightarrow> (string \<times> string) list \<Rightarrow> (string \<times> string) list \<Rightarrow> chunk" where
  "mk_chunk u i t m cf = \<lparr>ch_uid = js u, ch_id = js i, ch_text = js t,
     ch_metadata = map (\<lambda>(k, v). (js k, js v)) m,
     ch_customFields = map (\<lambda>(k, v). (js k, js v)) cf\<rparr>"

definition mk_category :: "string \<Rightarrow> string \<Rightarrow> chunk list \<Rightarrow> category" where
  "mk_category i n cs = \<lparr>cat_id = js i, cat_name = js n, cat_expanded = True, cat_chunks = cs\<rparr>"

definition mk_project :: "category list \<Rightarrow> project" where
  "mk_project cs = \<lparr>proj_id = js ''p1'', proj_name = js ''d'', proj_createdAt = js ''2026-02-27T10:00:00.000Z'',
     categories = cs\<rparr>"

definition creeper :: chunk where
  "creeper = mk_chunk ''u1'' ''creeper'' ''hostile''
     [(''page_title'', ''Creeper''), (''source'', ''Minecraft Wiki''), (''license'', ''CC BY-NC-SA 3.0'')]
     [(''health'', ''20'')]"

definition zombie :: chunk where
  "zombie = mk_chunk ''u2'' ''zombie'' ''undead''
     [(''page_title'', ''Zombie''), (''source'', ''Minecraft Wiki''), (''license'', ''CC BY-NC-SA 3.0'')] []"

text \<open>A snapshot with the creeper under "Mobs", and the next one with it under the new
  category "Enemies".\<close>

definition move_prev :: project where
  "move_prev = mk_project [mk_category ''c1'' ''Mobs'' [creeper]]"

definition move_curr :: project where
  "move_curr = mk_project [mk_category ''c1'' ''Mobs'' [], mk_category ''c2'' ''Enemies'' [creeper]]"

text \<open>A chunk deleted from the first category while the second category is renamed.\<close>

definition order_prev :: project where
  "order_prev = mk_project [mk_category ''c1'' ''Mobs'' [creeper], mk_category ''c2'' ''Biomes'' []]"

definition order_curr :: project where
  "order_curr = mk_project [mk_category ''c1'' ''Mobs'' [], mk_category ''c2'' ''Worlds'' []]"












text \<open>A deleted, an added and a renamed category, and a category with a deleted, an added
  and an edited chunk; no chunk is under another category name.\<close>

definition mixed_prev :: project where
  "mixed_prev = mk_project
     [mk_category ''c0'' ''Old'' [],
      mk_category ''c1'' ''Mobs'' [creeper, zombie],
      mk_category ''c2'' ''Biomes'' []]"

definition mixed_curr :: project where
  "mixed_curr = mk_project
     [mk_category ''c1'' ''Mobs''
        [creeper\<lparr>ch_id := js ''creeper2'', ch_text := js ''very hostile'',
                 ch_metadata := [(js ''page_title'', js ''Creeper''), (js ''source'', js ''Wiki'')]\<rparr>,
         mk_chunk ''u3'' ''skeleton'' ''bones'' [] []],
      mk_category ''c2'' ''Worlds'' [],
      mk_category ''c3'' ''New'' []]"

text \<open>
  The order the specification gives, following its words: category deletions, category
  additions, category modifications, then the chunk records. Category records are those
  whose text starts with \<open>Category\<close>.
\<close>

definition spec_rank :: "diff \<Rightarrow> nat" where
  "spec_rank d =
     (if prefix (js ''Category '') (d_text d)
      then (case d_type d of deleted \<Rightarrow> 0 | added \<Rightarrow> 1 | modified \<Rightarrow> 2)
      else 3)"

definition spec_order :: "diff list \<Rightarrow> bool" where
  "spec_order ds = sorted (map spec_rank ds)"

subsection \<open>Stores and commit logs\<close>

text \<open>An empty store, and a record of a flat array from its id, its text and the custom
  part of its metadata; the reserved keys are those of the creeper.\<close>

definition empty_store :: "json store_data_of" where
  "empty_store = \<lparr>projects = [], currentProjectId = None\<rparr>"

definition mk_record :: "json \<Rightarrow> string \<Rightarrow> (string \<times> json) list \<Rightarrow> json" where
  "mk_record i t custom =
     JObj [(js ''id'', i), (js ''text'', JStr (js t)),
           (js ''metadata'',
            JObj ([(js ''page_title'', JStr (js ''Creeper'')), (js ''source'', JStr (js ''Minecraft Wiki'')),
                   (js ''license'', JStr (js ''CC BY-NC-SA 3.0''))] @
                  map (\<lambda>(k, v). (js k, v)) custom))]"

definition creeper_record :: json where
  "creeper_record = mk_record (JStr (js ''creeper'')) ''hostile'' [(''health'', JStr (js ''20''))]"

text \<open>The same record with a custom key that starts with a space and one that is blank;
  with the number 20 as the value of the custom key; with the number 0 as the id; with
  the custom key \<open>__proto__\<close>; and a record without metadata.\<close>

definition padded_record :: json where
  "padded_record = mk_record (JStr (js ''creeper'')) ''hostile''
     [('' health'', JStr (js ''20'')), ('' '', JStr (js ''x''))]"

definition numeric_record :: json where
  "numeric_record = mk_record (JStr (js ''creeper'')) ''hostile'' [(''health'', JNum (js ''20''))]"

definition zero_record :: json where
  "zero_record = mk_record (JNum (js ''0'')) ''hostile'' [(''health'', JStr (js ''20''))]"

definition proto_record :: json where
  "proto_record = mk_record (JStr (js ''creeper'')) ''hostile'' [(''__proto__'', JStr (js ''x''))]"

definition bare_record :: json where
  "bare_record = JObj [(js ''id'', JStr (js ''creeper'')), (js ''text'', JStr (js ''hostile''))]"

text \<open>The export of the project that the import of an array into the empty store makes.\<close>

definition export_of_import :: "json list \<Rightarrow> js_error + json list option" where
  "export_of_import X =
     (case importProject empty_store (js ''minecraft'') X (js ''p1'') (js ''2026-02-27T10:00:00.000Z'')
             (js ''c1'') show_nat of
        Inl e \<Rightarrow> Inl e
      | Inr (d, p) \<Rightarrow> Inr (exportJSON d))"

text \<open>A store whose current project has the creeper and a chunk with id \<open>creeper_copy\<close>.\<close>

definition creeper_copy :: chunk where
  "creeper_copy = mk_chunk ''u9'' ''creeper_copy'' ''another chunk'' [] []"

definition dup_project :: project where
  "dup_project = mk_project [mk_category ''c1'' ''Mobs'' [creeper], mk_category ''c2'' ''Other'' [creeper_copy]]"

definition dup_store :: store_data where
  "dup_store = \<lparr>projects = [dup_project], currentProjectId = Some (js ''p1'')\<rparr>"

text \<open>Fifty-one mutations of the dataset "d", the \<open>k\<close>-th at time \<open>k\<close>.\<close>

definition mk_commit :: "nat \<Rightarrow> commit" where
  "mk_commit k = \<lparr>c_meta = \<lparr>c_id = show_nat k, c_timestamp = k, c_source = js ''browser'',
                             c_action = js ''addBlankChunk'', c_summary = js ''Added blank chunk'',
                             c_stats = (1, k)\<rparr>,
                  c_snapshot = mk_project []\<rparr>"

definition fifty_one :: "(jsstring \<times> commit) list" where
  "fifty_one = map (\<lambda>k. (js ''d'', mk_commit k)) [1..<52]"

subsection \<open>Servers\<close>

text \<open>A session with one browser and two MCP clients, all connections open.\<close>

definition one_session :: server where
  "one_session =
     \<lparr>sessions = [(js ''ABC123'', \<lparr>browsers = [1], mcpClients = [2, 3], createdAt = 1000\<rparr>)],
      readyState = (\<lambda>w. 1),
      sent = (\<lambda>w. [])\<rparr>"

text \<open>A session whose only member is one browser.\<close>

definition lone_browser :: server where
  "lone_browser =
     \<lparr>sessions = [(js ''ABC123'', \<lparr>browsers = [1], mcpClients = [], createdAt = 1000\<rparr>)],
      readyState = (\<lambda>w. 1),
      sent = (\<lambda>w. [])\<rparr>"

text \<open>A store call that succeeds: it counts the calls and returns the name it was given.\<close>

definition count_call :: "jsstring \<Rightarrow> nat \<Rightarrow> jsstring + nat \<times> json" where
  "count_call body_name store = Inr (Suc store, JStr body_name)"

text \<open>Two sessions without members, created at 0 ms and at 1000000 ms.\<close>

definition idle_sessions :: server where
  "idle_sessions =
     \<lparr>sessions = [(js ''OLD234'', \<lparr>browsers = [], mcpClients = [], createdAt = 0\<rparr>),
                  (js ''NEW234'', \<lparr>browsers = [], mcpClients = [], createdAt = 1000000\<rparr>)],
      readyState = (\<lambda>w. 1),
      sent = (\<lambda>w. [])\<rparr>"

section \<open>Properties of the differ\<close>

subsection \<open>Maps and folds\<close>

lemma map_of_map_set: "map_of (map_set m k v) = (map_of m)(k \<mapsto> v)"
  by (induction m) (auto simp: fun_eq_iff)

lemma keys_map_set: "fst ` set (map_set m k v) = insert k (fst ` set m)"
proof (induction m)
  case Nil
  then show ?case by simp
next
  case (Cons e m)
  obtain k' v' where e: "e = (k', v')" by (cases e)
  show ?case
  proof (cases "k' = k")
    case True
    then show ?thesis using e by auto
  next
    case False
    then show ?thesis using e Cons.IH by auto
  qed
qed

lemma distinct_map_set: "distinct (map fst m) \<Longrightarrow> distinct (map fst (map_set m k v))"
  by (induction m) (auto simp: keys_map_set)

lemma distinct_foldl_map_set:
  "distinct (map fst m) \<Longrightarrow> distinct (map fst (foldl (\<lambda>m x. map_set m (f x) (g x)) m xs))"
  by (induction xs arbitrary: m) (auto simp: distinct_map_set)

lemma distinct_foldl_entries:
  "distinct (map fst m) \<Longrightarrow> distinct (map fst (foldl (\<lambda>m (k, v). map_set m k v) m es))"
  by (induction es arbitrary: m) (auto simp: distinct_map_set)

lemma distinct_new_Map: "distinct (map fst (new_Map es))"
  by (simp add: new_Map_def distinct_foldl_entries)

lemma new_Map_get: "(k, v) \<in> set (new_Map es) \<Longrightarrow> map_get (new_Map es) k = Some v"
  by (simp add: map_get_def distinct_new_Map)

lemma new_Map_has: "(k, v) \<in> set (new_Map es) \<Longrightarrow> map_has (new_Map es) k"
  by (simp add: map_has_def distinct_new_Map)

lemma foldl_unchanged: "(\<And>x d. x \<in> set xs \<Longrightarrow> f d x = d) \<Longrightarrow> foldl f d xs = d"
  by (induction xs arbitrary: d) auto

lemma foldl_push: "foldl (\<lambda>d x. d @ g x) d0 xs = d0 @ concat (map g xs)"
  by (induction xs arbitrary: d0) auto

lemma subseq_take_drop: "subseq (take n xs @ drop (Suc n) xs) xs"
proof (induction xs arbitrary: n)
  case Nil
  then show ?case by simp
next
  case (Cons x xs)
  show ?case
  proof (cases n)
    case 0
    then show ?thesis by auto
  next
    case (Suc m)
    then show ?thesis using Cons.IH [of m] by simp
  qed
qed

lemma subseq_splice1: "subseq (splice1 xs i) xs"
  by (simp add: splice1_def Let_def subseq_take_drop)


subsection \<open>Each loop appends a list that does not depend on what was pushed before\<close>

lemma deleted_categories_eq:
  "deleted_categories P C d =
     d @ concat (map (\<lambda>(i, cat). if map_has C i then [] else [category_removed cat]) P)"
proof -
  have "(\<lambda>diffs (i, cat). if \<not> map_has C i then diffs @ [category_removed cat] else diffs)
        = (\<lambda>diffs e. diffs @ (case e of (i, cat) \<Rightarrow> if map_has C i then [] else [category_removed cat]))"
    by (auto simp: fun_eq_iff)
  then show ?thesis
    unfolding deleted_categories_def by (simp only: foldl_push)
qed


lemma added_categories_eq:
  "added_categories P C d =
     d @ concat (map (\<lambda>(i, cat). if map_has P i then [] else [category_added cat]) C)"
proof -
  have "(\<lambda>diffs (i, cat). if \<not> map_has P i then diffs @ [category_added cat] else diffs)
        = (\<lambda>diffs e. diffs @ (case e of (i, cat) \<Rightarrow> if map_has P i then [] else [category_added cat]))"
    by (auto simp: fun_eq_iff)
  then show ?thesis
    unfolding added_categories_def by (simp only: foldl_push)
qed

lemma deleted_chunks_eq:
  "deleted_chunks P C cat d =
     d @ concat (map (\<lambda>(u, ch). if map_has C u then [] else [chunk_removed ch cat]) P)"
proof -
  have "(\<lambda>diffs (u, ch). if \<not> map_has C u then diffs @ [chunk_removed ch cat] else diffs)
        = (\<lambda>diffs e. diffs @ (case e of (u, ch) \<Rightarrow> if map_has C u then [] else [chunk_removed ch cat]))"
    by (auto simp: fun_eq_iff)
  then show ?thesis
    unfolding deleted_chunks_def by (simp only: foldl_push)
qed

lemma added_chunks_eq:
  "added_chunks P C cat d =
     d @ concat (map (\<lambda>(u, ch). if map_has P u then [] else [chunk_added ch cat]) C)"
proof -
  have "(\<lambda>diffs (u, ch). if \<not> map_has P u then diffs @ [chunk_added ch cat] else diffs)
        = (\<lambda>diffs e. diffs @ (case e of (u, ch) \<Rightarrow> if map_has P u then [] else [chunk_added ch cat]))"
    by (auto simp: fun_eq_iff)
  then show ?thesis
    unfolding added_chunks_def by (simp only: foldl_push)
qed

lemma modified_chunks_eq:
  "modified_chunks proto P C cat d =
     d @ concat (map (\<lambda>(u, currCh). case map_get P u of None \<Rightarrow> []
                       | Some prevCh \<Rightarrow> chunk_modification proto prevCh currCh cat) C)"
proof -
  have "(\<lambda>diffs (u, currCh).
          case map_get P u of None \<Rightarrow> diffs
          | Some prevCh \<Rightarrow>
              (let changes = chunk_changes proto prevCh currCh
               in if length changes > 0 then diffs @ [chunk_modified currCh cat changes] else diffs))
        = (\<lambda>diffs e. diffs @ (case e of (u, currCh) \<Rightarrow> case map_get P u of None \<Rightarrow> []
                       | Some prevCh \<Rightarrow> chunk_modification proto prevCh currCh cat))"
    by (auto simp: fun_eq_iff chunk_modification_def Let_def split: option.splits)
  then show ?thesis
    unfolding modified_chunks_def by (simp only: foldl_push)
qed

lemma modified_categories_eq:
  "modified_categories proto (cats_by_id prv) C d = d @ concat (map (category_changes proto prv) C)"
proof -
  have "(\<lambda>diffs (i, currCat).
        case map_get (cats_by_id prv) i of
          None \<Rightarrow> diffs
        | Some prevCat \<Rightarrow>
            (let diffs1 = (if cat_name prevCat \<noteq> cat_name currCat
                           then diffs @ [category_renamed prevCat currCat] else diffs);
                 prevChunks = chunks_by_uid prevCat;
                 currChunks = chunks_by_uid currCat;
                 diffs2 = deleted_chunks prevChunks currChunks currCat diffs1;
                 diffs3 = added_chunks prevChunks currChunks currCat diffs2
             in modified_chunks proto prevChunks currChunks currCat diffs3))
        = (\<lambda>diffs e. diffs @ category_changes proto prv e)"
    by (auto simp: fun_eq_iff category_changes_def Let_def deleted_chunks_eq added_chunks_eq
          modified_chunks_eq chunk_deletions_def chunk_additions_def chunk_modifications_def
          split: option.splits)
  then show ?thesis
    unfolding modified_categories_def by (simp only: foldl_push)
qed

lemma before_moves_eq:
  "modified_categories proto (cats_by_id prv) (cats_by_id cur)
     (added_categories (cats_by_id prv) (cats_by_id cur)
        (deleted_categories (cats_by_id prv) (cats_by_id cur) [])) = before_moves proto prv cur"
  by (simp add: modified_categories_eq added_categories_eq deleted_categories_eq before_moves_def
        category_deletions_def category_additions_def)

lemma computeDiff_eq: "computeDiff proto (Some prv) cur = moved_chunks prv cur (before_moves proto prv cur)"
  by (simp add: computeDiff_def Let_def before_moves_eq)

subsection \<open>The reconciliation loop only removes records and appends moves\<close>

lemma move_step_split:
  "\<exists>kept. subseq kept d \<and> move_step A d e = kept @ 
      (case e of (u, (currCat, currCh)) \<Rightarrow>
        (case map_get A u of
           None \<Rightarrow> []
         | Some (prevCat, prevCh) \<Rightarrow>
             if prevCat \<noteq> currCat then [chunk_moved currCh prevCat currCat] else []))"
proof -
  obtain u currCat currCh where e: "e = (u, (currCat, currCh))" by (cases e) auto
  show ?thesis
  proof (cases "map_get A u")
    case None
    then show ?thesis using e by (auto simp: move_step_def)
  next
    case (Some a)
    obtain prevCat prevCh where a: "a = (prevCat, prevCh)" by (cases a)
    show ?thesis
    proof (cases "prevCat = currCat")
      case True
      then show ?thesis using e Some a by (auto simp: move_step_def)
    next
      case False
      have t: "\<And>i j. subseq (splice1 (splice1 d i) j) d"
        using subseq_splice1 subseq_order.order_trans by blast
      show ?thesis using e Some a False
        by (auto simp: move_step_def Let_def subseq_splice1 t)
    qed
  qed
qed

lemma foldl_move_step_subseq:
  "subseq d X \<Longrightarrow> subseq (foldl (move_step (allChunkUids prv)) d es) (X @ concat (map (chunk_move prv) es))"
proof (induction es arbitrary: d X)
  case Nil
  then show ?case by simp
next
  case (Cons e es)
  obtain kept where k: "subseq kept d" "move_step (allChunkUids prv) d e = kept @ chunk_move prv e"
    using move_step_split [of d "allChunkUids prv" e] by (auto simp: chunk_move_def)
  have "subseq kept X" using k(1) Cons.prems subseq_order.order_trans by blast
  then have "subseq (kept @ chunk_move prv e) (X @ chunk_move prv e)"
    by (simp add: subseq_append)
  then have "subseq (foldl (move_step (allChunkUids prv)) (kept @ chunk_move prv e) es)
                    ((X @ chunk_move prv e) @ concat (map (chunk_move prv) es))"
    by (rule Cons.IH)
  then show ?case using k(2) by simp
qed

lemma foldl_move_step_none:
  "concat (map (chunk_move prv) es) = [] \<Longrightarrow> foldl (move_step (allChunkUids prv)) d es = d"
proof (induction es arbitrary: d)
  case Nil
  then show ?case by simp
next
  case (Cons e es)
  have "chunk_move prv e = []" using Cons.prems by simp
  then have "move_step (allChunkUids prv) d e = d"
    by (auto simp: chunk_move_def move_step_def split: prod.splits option.splits if_splits)
  then show ?case using Cons by simp
qed

subsection \<open>The changes of one chunk\<close>

lemma concat_map_empty: "(\<And>x. x \<in> set xs \<Longrightarrow> f x = []) \<Longrightarrow> concat (map f xs) = []"
  by (induction xs) auto

lemma set_new_Set_aux: "set (foldl (\<lambda>s x. if x \<in> set s then s else s @ [x]) s xs) = set s \<union> set xs"
  by (induction xs arbitrary: s) auto

lemma set_new_Set: "set (new_Set xs) = set xs"
  by (simp add: new_Set_def set_new_Set_aux)

lemma obj_read_differs_iff:
  "obj_read proto mp k \<noteq> obj_read proto mc k \<longleftrightarrow> map_of mp k \<noteq> map_of mc k"
  by (auto simp: obj_read_def split: option.splits)

lemma meta_changes_eq:
  "foldl (\<lambda>changes k.
           let pv = obj_read proto mp k; cv = obj_read proto mc k
           in if pv \<noteq> cv then changes @ [meta_change k pv cv] else changes) ch0 ks
   = ch0 @ concat (map (\<lambda>k. if map_of mp k \<noteq> map_of mc k
                              then [meta_change k (obj_read proto mp k) (obj_read proto mc k)] else []) ks)"
proof -
  have "(\<lambda>changes k.
           let pv = obj_read proto mp k; cv = obj_read proto mc k
           in if pv \<noteq> cv then changes @ [meta_change k pv cv] else changes)
        = (\<lambda>changes k. changes @ (if map_of mp k \<noteq> map_of mc k
                              then [meta_change k (obj_read proto mp k) (obj_read proto mc k)] else []))"
    by (simp add: fun_eq_iff Let_def obj_read_differs_iff)
  then show ?thesis by (simp only: foldl_push)
qed

lemma chunk_changes_eq:
  "chunk_changes proto p c =
     (if ch_id p \<noteq> ch_id c then [id_change p c] else []) @
     (if ch_text p \<noteq> ch_text c then [text_change p c] else []) @
     concat (map (\<lambda>k. if map_of (ch_metadata p) k \<noteq> map_of (ch_metadata c) k
                        then [meta_change k (obj_read proto (ch_metadata p) k) (obj_read proto (ch_metadata c) k)]
                        else [])
                 (new_Set (keys (ch_metadata p) @ keys (ch_metadata c))))"
  unfolding chunk_changes_def meta_changes_eq by (simp add: Let_def)

lemma map_of_outside: "k \<notin> set (keys m) \<Longrightarrow> map_of m k = None"
  by (simp add: keys_def map_of_eq_None_iff)

lemma differs_in_keys:
  assumes "map_of mp k \<noteq> map_of mc k"
  shows "k \<in> set (new_Set (keys mp @ keys mc))"
proof (rule ccontr)
  assume "k \<notin> set (new_Set (keys mp @ keys mc))"
  then have "map_of mp k = None" "map_of mc k = None"
    by (simp_all add: map_of_outside set_new_Set)
  with assms show False by simp
qed

lemma metadata_differs_iff:
  "(\<exists>k \<in> set (new_Set (keys mp @ keys mc)). map_of mp k \<noteq> map_of mc k) \<longleftrightarrow> map_of mp \<noteq> map_of mc"
proof
  assume "\<exists>k \<in> set (new_Set (keys mp @ keys mc)). map_of mp k \<noteq> map_of mc k"
  then obtain k where "map_of mp k \<noteq> map_of mc k" by blast
  then show "map_of mp \<noteq> map_of mc" by metis
next
  assume "map_of mp \<noteq> map_of mc"
  then obtain k where k: "map_of mp k \<noteq> map_of mc k" by (meson ext)
  then have "k \<in> set (new_Set (keys mp @ keys mc))" by (rule differs_in_keys)
  with k show "\<exists>k \<in> set (new_Set (keys mp @ keys mc)). map_of mp k \<noteq> map_of mc k" ..
qed

lemma concat_map_if_empty:
  "concat (map (\<lambda>k. if P k then [f k] else []) ks) = [] \<longleftrightarrow> \<not> (\<exists>k \<in> set ks. P k)"
  by (induction ks) auto

lemma chunk_changes_empty_iff:
  "chunk_changes proto p c = [] \<longleftrightarrow>
     ch_id p = ch_id c \<and> ch_text p = ch_text c \<and> map_of (ch_metadata p) = map_of (ch_metadata c)"
proof -
  let ?ks = "new_Set (keys (ch_metadata p) @ keys (ch_metadata c))"
  let ?P = "\<lambda>k. map_of (ch_metadata p) k \<noteq> map_of (ch_metadata c) k"
  let ?f = "\<lambda>k. meta_change k (obj_read proto (ch_metadata p) k) (obj_read proto (ch_metadata c) k)"
  have m: "concat (map (\<lambda>k. if ?P k then [?f k] else []) ?ks) = []
           \<longleftrightarrow> map_of (ch_metadata p) = map_of (ch_metadata c)"
    using concat_map_if_empty [of ?P ?f ?ks] metadata_differs_iff [of "ch_metadata p" "ch_metadata c"]
    by blast
  have "chunk_changes proto p c = [] \<longleftrightarrow>
        ch_id p = ch_id c \<and> ch_text p = ch_text c \<and> concat (map (\<lambda>k. if ?P k then [?f k] else []) ?ks) = []"
    unfolding chunk_changes_eq by (simp del: concat_eq_Nil_conv)
  with m show ?thesis by blast
qed



subsection \<open>A snapshot against itself\<close>

lemma chunk_changes_same: "chunk_changes proto c c = []"
  by (simp add: chunk_changes_empty_iff)

lemma chunks_by_uid_get: "(u, ch) \<in> set (chunks_by_uid cat) \<Longrightarrow> map_get (chunks_by_uid cat) u = Some ch"
  unfolding chunks_by_uid_def by (rule new_Map_get)

lemma chunks_by_uid_has: "(u, ch) \<in> set (chunks_by_uid cat) \<Longrightarrow> map_has (chunks_by_uid cat) u"
  unfolding chunks_by_uid_def by (rule new_Map_has)

lemma cats_by_id_get: "(i, cat) \<in> set (cats_by_id s) \<Longrightarrow> map_get (cats_by_id s) i = Some cat"
  unfolding cats_by_id_def by (rule new_Map_get)

lemma cats_by_id_has: "(i, cat) \<in> set (cats_by_id s) \<Longrightarrow> map_has (cats_by_id s) i"
  unfolding cats_by_id_def by (rule new_Map_has)

lemma chunk_deletions_same: "chunk_deletions cat cat = []"
  unfolding chunk_deletions_def by (rule concat_map_empty) (auto simp: chunks_by_uid_has)

lemma chunk_additions_same: "chunk_additions cat cat = []"
  unfolding chunk_additions_def by (rule concat_map_empty) (auto simp: chunks_by_uid_has)

lemma chunk_modifications_same: "chunk_modifications proto cat cat = []"
  unfolding chunk_modifications_def
  by (rule concat_map_empty) (auto simp: chunks_by_uid_get chunk_modification_def chunk_changes_same)

lemma category_deletions_same: "category_deletions s s = []"
  unfolding category_deletions_def by (rule concat_map_empty) (auto simp: cats_by_id_has)

lemma category_additions_same: "category_additions s s = []"
  unfolding category_additions_def by (rule concat_map_empty) (auto simp: cats_by_id_has)

lemma category_changes_same: "e \<in> set (cats_by_id s) \<Longrightarrow> category_changes proto s e = []"
  by (cases e) (auto simp: category_changes_def cats_by_id_get chunk_deletions_same
        chunk_additions_same chunk_modifications_same)

lemma before_moves_same: "before_moves proto s s = []"
  by (simp add: before_moves_def category_deletions_same category_additions_same
        concat_map_empty category_changes_same)

lemma distinct_allChunkUids_aux:
  "distinct (map fst m) \<Longrightarrow>
   distinct (map fst (foldl (\<lambda>m cat. foldl (\<lambda>m ch. map_set m (ch_uid ch) (cat_name cat, ch)) m (cat_chunks cat)) m cats))"
  by (induction cats arbitrary: m) (auto simp: distinct_foldl_map_set)

lemma distinct_allChunkUids: "distinct (map fst (allChunkUids s))"
  by (simp add: allChunkUids_def distinct_allChunkUids_aux)

lemma chunk_move_same: "e \<in> set (allChunkUids s) \<Longrightarrow> chunk_move s e = []"
  by (cases e) (auto simp: chunk_move_def map_get_def distinct_allChunkUids)

lemma chunk_moves_same: "chunk_moves s s = []"
  unfolding chunk_moves_def by (rule concat_map_empty) (rule chunk_move_same)

subsection \<open>What the reconciliation loop removes\<close>












subsection \<open>The records of type \<open>modified\<close>\<close>













section \<open>Properties of the Store\<close>

lemma find_update_first:
  "find P xs = Some x \<Longrightarrow> P y \<Longrightarrow> find P (update_first P (\<lambda>_. y) xs) = Some y"
  by (induction xs) (auto split: if_splits)

lemma update_first_split:
  "find P xs = Some x \<Longrightarrow> \<exists>pre post. xs = pre @ x # post \<and> update_first P f xs = pre @ f x # post"
proof (induction xs)
  case Nil
  then show ?case by simp
next
  case (Cons a xs)
  show ?case
  proof (cases "P a")
    case True
    then have "a = x" using Cons.prems by simp
    then have "a # xs = [] @ x # xs \<and> update_first P f (a # xs) = [] @ f x # xs"
      using True by simp
    then show ?thesis by blast
  next
    case False
    then have "find P xs = Some x" using Cons.prems by simp
    then obtain pre post where "xs = pre @ x # post" "update_first P f xs = pre @ f x # post"
      using Cons.IH by blast
    then have "a # xs = (a # pre) @ x # post \<and> update_first P f (a # xs) = (a # pre) @ f x # post"
      using False by simp
    then show ?thesis by blast
  qed
qed

lemma find_Some_P: "find P xs = Some x \<Longrightarrow> P x"
  by (induction xs) (auto split: if_splits)

lemma duplicateChunk_found:
  assumes "getCurrentProject d = Some project"
    and "find (\<lambda>c. cat_id c = catId) (categories project) = Some cat"
    and "find (\<lambda>ch. ch_uid ch = chunkUid) (cat_chunks cat) = Some orig"
  shows "duplicateChunk d catId chunkUid newUid =
     (d\<lparr>projects := update_first (\<lambda>p. Some (proj_id p) = currentProjectId d)
          (\<lambda>p. project\<lparr>categories := update_first (\<lambda>c. cat_id c = catId)
                  (\<lambda>c. c\<lparr>cat_chunks := cat_chunks c @
                     [orig\<lparr>ch_uid := newUid,
                           ch_id := (if ch_id orig \<noteq> [] then ch_id orig @ js ''_copy'' else [])\<rparr>]\<rparr>)
                  (categories project)\<rparr>) (projects d)\<rparr>,
      Some (catId, newUid))"
  using assms by (simp add: duplicateChunk_def Let_def)

lemma getCurrentProject_update:
  assumes "getCurrentProject d = Some project" and "proj_id p' = proj_id project"
  shows "getCurrentProject (d\<lparr>projects := update_first (\<lambda>p. Some (proj_id p) = currentProjectId d)
            (\<lambda>p. p') (projects d)\<rparr>) = Some p'"
proof -
  obtain i where i: "currentProjectId d = Some i" "i \<noteq> []"
      "find (\<lambda>p. proj_id p = i) (projects d) = Some project"
    using assms(1) by (auto simp: getCurrentProject_def split: option.splits if_splits)
  have "proj_id project = i" using find_Some_P [OF i(3)] .
  then have "find (\<lambda>p. proj_id p = i) (update_first (\<lambda>p. proj_id p = i) (\<lambda>_. p') (projects d)) = Some p'"
    using find_update_first [OF i(3), of p'] assms(2) by simp
  moreover have "(\<lambda>p. Some (proj_id p) = currentProjectId d) = (\<lambda>p. proj_id p = i)"
    using i(1) by auto
  ultimately show ?thesis using i(1,2) by (simp add: getCurrentProject_def)
qed

lemma isChunkIdTaken_iff:
  "getCurrentProject d = Some project \<Longrightarrow> i \<noteq> [] \<Longrightarrow>
   isChunkIdTaken d i excludeUid \<longleftrightarrow> (\<exists>ch \<in> set (all_chunks project). ch_uid ch \<noteq> excludeUid \<and> ch_id ch = i)"
  by (auto simp: isChunkIdTaken_def all_chunks_def list_ex_iff)

lemma export_fold:
  "foldl (\<lambda>result cat. foldl (\<lambda>result chunk. result @ [export_chunk chunk]) result (cat_chunks cat)) acc cats
   = acc @ map export_chunk (concat (map cat_chunks cats))"
proof (induction cats arbitrary: acc)
  case Nil
  then show ?case by simp
next
  case (Cons c cats)
  have "foldl (\<lambda>result chunk. result @ [export_chunk chunk]) acc (cat_chunks c) = acc @ map export_chunk (cat_chunks c)"
    using foldl_push [of "\<lambda>chunk. [export_chunk chunk]" acc "cat_chunks c"]
    by (simp add: concat_map_singleton)
  then show ?case using Cons.IH by simp
qed

lemma exportJSON_eq:
  "getCurrentProject d = Some project \<Longrightarrow> exportJSON d = Some (map export_chunk (all_chunks project))"
  using export_fold [of "[]" "categories project"] by (simp add: exportJSON_def all_chunks_def)

lemma find_append_fresh: "(\<And>x. x \<in> set xs \<Longrightarrow> \<not> P x) \<Longrightarrow> P y \<Longrightarrow> find P (xs @ [y]) = Some y"
  by (induction xs) auto

lemma getCurrentProject_pushed:
  assumes "pid \<noteq> []" and "pid \<notin> proj_id ` set (projects d)" and "proj_id project = pid"
  shows "getCurrentProject (d\<lparr>projects := projects d @ [project], currentProjectId := Some pid\<rparr>) = Some project"
proof -
  have "find (\<lambda>p. proj_id p = pid) (projects d @ [project]) = Some project"
  proof (rule find_append_fresh)
    fix x assume "x \<in> set (projects d)"
    then show "proj_id x \<noteq> pid" using assms(2) by auto
  next
    show "proj_id project = pid" by (rule assms(3))
  qed
  then show ?thesis using assms(1) by (simp add: getCurrentProject_def)
qed

subsection \<open>The import of plain records\<close>

lemma custom_fields_plain:
  "list_all (\<lambda>(k, v). if k \<in> set S then P v else (case v of JStr s \<Rightarrow> True | _ \<Rightarrow> False)) es \<Longrightarrow>
   S = STANDARD_META \<Longrightarrow>
   custom_fields acc es = Inr (acc @ filter (\<lambda>e. fst e \<notin> set STANDARD_META) es)"
proof (induction es arbitrary: acc)
  case Nil
  then show ?case by simp
next
  case (Cons e es)
  obtain k v where e: "e = (k, v)" by (cases e)
  show ?case
  proof (cases "k \<in> set STANDARD_META")
    case True
    then show ?thesis using Cons e by simp
  next
    case False
    then obtain s where "v = JStr s" using Cons.prems e by (cases v) auto
    then show ?thesis using Cons e False by simp
  qed
qed

lemma or_blank_kept: "kept v \<Longrightarrow> or_blank (Some v) = v"
  by (cases v) (auto simp: kept_def or_blank_def)

lemma well_formed_fields:
  assumes "well_formed e"
  obtains fs i t md where "e = JObj fs" "map_of fs (js ''id'') = Some i" "map_of fs (js ''text'') = Some t"
    "map_of fs (js ''metadata'') = Some (JObj md)" "distinct (keys md)"
    "list_all (\<lambda>k. k \<in> set (keys md)) STANDARD_META"
proof -
  from assms obtain fs where fs: "e = JObj fs" by (cases e) (simp_all add: well_formed_def)
  have w: "js ''id'' \<in> set (keys fs)" "js ''text'' \<in> set (keys fs)"
      "case map_of fs (js ''metadata'') of
         Some (JObj md) \<Rightarrow> distinct (keys md) \<and> list_all (\<lambda>k. k \<in> set (keys md)) STANDARD_META
       | _ \<Rightarrow> False"
    using assms fs by (simp_all add: well_formed_def)
  from w(1) have "map_of fs (js ''id'') \<noteq> None" by (simp add: keys_def map_of_eq_None_iff)
  then obtain i where i: "map_of fs (js ''id'') = Some i" by blast
  from w(2) have "map_of fs (js ''text'') \<noteq> None" by (simp add: keys_def map_of_eq_None_iff)
  then obtain t where t: "map_of fs (js ''text'') = Some t" by blast
  from w(3) obtain m where m: "map_of fs (js ''metadata'') = Some m"
    by (cases "map_of fs (js ''metadata'')") simp_all
  with w(3) obtain md where md: "m = JObj md" by (cases m) simp_all
  have "distinct (keys md)" "list_all (\<lambda>k. k \<in> set (keys md)) STANDARD_META"
    using w(3) m md by simp_all
  then show ?thesis using that fs i t m md by blast
qed

lemma reserved_value:
  assumes "list_all (\<lambda>k. k \<in> set (keys md)) STANDARD_META" and "k \<in> set STANDARD_META"
    and "list_all (\<lambda>(k, v). if k \<in> set STANDARD_META then kept v else Q v) md"
  shows "\<exists>v. map_of md k = Some v \<and> or_blank (map_of md k) = v"
proof -
  have "k \<in> fst ` set md" using assms(1,2) by (auto simp: keys_def list_all_iff)
  then obtain v where v: "map_of md k = Some v" by (metis map_of_eq_None_iff option.exhaust)
  then have "(k, v) \<in> set md" by (rule map_of_SomeD)
  then have "kept v" using assms(2,3) by (auto simp: list_all_iff)
  then show ?thesis using v by (simp add: or_blank_kept)
qed

lemma import_entry_plain:
  assumes "well_formed e" and "plain_values e"
  shows "\<exists>c. import_entry u e = Inr c \<and> Some (ch_id c) = get_own e (js ''id'') \<and>
             Some (ch_text c) = get_own e (js ''text'') \<and>
             ch_customFields c = filter (\<lambda>x. fst x \<notin> set STANDARD_META) (metadata_of e) \<and>
             (\<exists>a b l. ch_metadata c = [(js ''page_title'', a), (js ''source'', b), (js ''license'', l)]) \<and>
             (\<forall>k \<in> set STANDARD_META. map_of (ch_metadata c) k = map_of (metadata_of e) k)"
proof -
  from assms(1) obtain fs i t md where f: "e = JObj fs" "map_of fs (js ''id'') = Some i"
      "map_of fs (js ''text'') = Some t" "map_of fs (js ''metadata'') = Some (JObj md)"
      "distinct (keys md)" "list_all (\<lambda>k. k \<in> set (keys md)) STANDARD_META"
    by (rule well_formed_fields)
  have m: "metadata_of e = md" using f by (simp add: metadata_of_def get_own_def)
  have pv: "kept i" "kept t"
      "list_all (\<lambda>(k, v). if k \<in> set STANDARD_META then kept v else (case v of JStr s \<Rightarrow> True | _ \<Rightarrow> False)) md"
    using assms(2) f m by (simp_all add: plain_values_def get_own_def)
  have cf: "custom_fields [] md = Inr (filter (\<lambda>x. fst x \<notin> set STANDARD_META) md)"
    using custom_fields_plain [OF pv(3) refl, of "[]"] by simp
  have r: "\<And>k. k \<in> set STANDARD_META \<Longrightarrow> \<exists>v. map_of md k = Some v \<and> or_blank (map_of md k) = v"
    using reserved_value [OF f(6) _ pv(3)] by blast
  have r': "\<And>k. k \<in> set STANDARD_META \<Longrightarrow> Some (or_blank (map_of md k)) = map_of md k"
    using r by fastforce
  let ?c = "\<lparr>ch_uid = u, ch_id = i, ch_text = t,
             ch_metadata = [(js ''page_title'', or_blank (map_of md (js ''page_title''))),
                            (js ''source'', or_blank (map_of md (js ''source''))),
                            (js ''license'', or_blank (map_of md (js ''license'')))],
             ch_customFields = filter (\<lambda>x. fst x \<notin> set STANDARD_META) md\<rparr>"
  have "import_entry u e = Inr ?c"
    using f cf pv(1,2) by (simp add: import_entry_def get_own_def Let_def or_blank_kept)
  moreover have "\<forall>k \<in> set STANDARD_META. map_of (ch_metadata ?c) k = map_of md k"
    using r' [of "js ''page_title''"] r' [of "js ''source''"] r' [of "js ''license''"]
    by (simp add: STANDARD_META_def)
  ultimately show ?thesis using f m by (simp add: get_own_def)
qed

lemma import_chunks_plain:
  assumes "list_all well_formed X" and "list_all plain_values X"
  shows "\<exists>cs. import_chunks uids acc X = Inr (acc @ cs) \<and> length cs = length X \<and>
              (\<forall>n < length X. \<exists>u. import_entry u (X ! n) = Inr (cs ! n))"
  using assms
proof (induction X arbitrary: acc)
  case Nil
  then show ?case by simp
next
  case (Cons e X)
  obtain c where c: "import_entry (uids (length acc)) e = Inr c"
    using import_entry_plain [of e "uids (length acc)"] Cons.prems by auto
  obtain cs where cs: "import_chunks uids ((acc @ [c])) X = Inr ((acc @ [c]) @ cs)" "length cs = length X"
      "\<forall>n < length X. \<exists>u. import_entry u (X ! n) = Inr (cs ! n)"
    using Cons.IH [of "acc @ [c]"] Cons.prems by auto
  have "import_chunks uids acc (e # X) = Inr (acc @ (c # cs))" using c cs(1) by simp
  moreover have "length (c # cs) = length (e # X)" using cs(2) by simp
  moreover have "\<forall>n < length (e # X). \<exists>u. import_entry u ((e # X) ! n) = Inr ((c # cs) ! n)"
  proof (intro allI impI)
    fix n assume "n < length (e # X)"
    then show "\<exists>u. import_entry u ((e # X) ! n) = Inr ((c # cs) ! n)"
      using c cs(3) by (cases n) auto
  qed
  ultimately show ?case by blast
qed

subsection \<open>The export of an imported record\<close>

lemma map_of_insert_index:
  "k \<notin> set (keys m) \<Longrightarrow> map_of (insert_index n k v m) x = ((map_of m)(k \<mapsto> v)) x"
proof (induction m arbitrary: x)
  case Nil
  then show ?case by simp
next
  case (Cons e m)
  obtain k' v' where e: "e = (k', v')" by (cases e)
  have ne: "k \<noteq> k'" and "k \<notin> set (keys m)" using Cons.prems e by (auto simp: keys_def)
  then have ih: "\<And>y. map_of (insert_index n k v m) y = ((map_of m)(k \<mapsto> v)) y" using Cons.IH by simp
  show ?case using e ne by (simp add: ih split: option.splits)
qed

lemma map_of_append_fresh:
  assumes "k \<notin> set (keys obj)"
  shows "map_of (obj @ [(k, v)]) x = ((map_of obj)(k \<mapsto> v)) x"
proof -
  have n: "map_of obj k = None" using assms by (simp add: keys_def map_of_eq_None_iff)
  show ?thesis
  proof (cases "x = k")
    case True
    then show ?thesis using n by (simp add: map_add_def)
  next
    case False
    then show ?thesis by (simp add: map_add_def split: option.splits)
  qed
qed

lemma map_of_obj_set:
  assumes "k \<noteq> js ''__proto__''"
  shows "map_of (obj_set obj k v) = (map_of obj)(k \<mapsto> v)"
proof (cases "k \<in> set (keys obj)")
  case True
  then show ?thesis by (simp add: obj_set_def map_of_map_set)
next
  case False
  show ?thesis
  proof (rule ext)
    fix x
    show "map_of (obj_set obj k v) x = ((map_of obj)(k \<mapsto> v)) x"
    proof (cases "array_index k")
      case None
      then have "obj_set obj k v = obj @ [(k, v)]" using False assms by (simp add: obj_set_def)
      then show ?thesis using map_of_append_fresh [OF False] by simp
    next
      case (Some n)
      then have "obj_set obj k v = insert_index n k v obj" using False assms by (simp add: obj_set_def)
      then show ?thesis using map_of_insert_index [OF False] by simp
    qed
  qed
qed

lemma map_of_filter_keys:
  "map_of (filter (\<lambda>e. P (fst e)) m) k = (if P k then map_of m k else None)"
  by (induction m) auto

lemma export_md_trimmed:
  "\<forall>e \<in> set cs. fst e \<noteq> [] \<and> trim (fst e) = fst e \<and> fst e \<noteq> js ''__proto__'' \<and> kept (snd e) \<Longrightarrow>
   map_of (foldl (\<lambda>md (key, value).
                    if key \<noteq> [] \<and> trim key \<noteq> [] then obj_set md (trim key) (or_blank (Some value)) else md) md cs) k
   = (case map_of (rev cs) k of None \<Rightarrow> map_of md k | Some v \<Rightarrow> Some v)"
proof (induction cs arbitrary: md)
  case Nil
  then show ?case by simp
next
  case (Cons e cs)
  obtain key v where e: "e = (key, v)" by (cases e)
  have t: "key \<noteq> []" "trim key = key" "key \<noteq> js ''__proto__''" "or_blank (Some v) = v"
    using Cons.prems e by (auto simp: or_blank_kept)
  have o: "map_of (obj_set md key v) = (map_of md)(key \<mapsto> v)" using t(3) by (rule map_of_obj_set)
  have "\<forall>e \<in> set cs. fst e \<noteq> [] \<and> trim (fst e) = fst e \<and> fst e \<noteq> js ''__proto__'' \<and> kept (snd e)"
    using Cons.prems by simp
  then show ?case
    using Cons.IH [of "obj_set md key v"] e t o
    by (auto simp: map_add_def split: option.splits)
qed

lemma map_of_rev_distinct: "distinct (map fst m) \<Longrightarrow> map_of (rev m) = map_of m"
  by (simp add: map_of_inject_set distinct_map)

lemma map_of_base_out:
  "k \<notin> set STANDARD_META \<Longrightarrow>
   map_of [(js ''page_title'', a), (js ''source'', b), (js ''license'', c)] k = None"
  unfolding STANDARD_META_def by auto

lemma content_round_trip:
  assumes "well_formed e" and "plain_custom_keys e" and "plain_values e"
    and "import_entry u e = Inr c"
  shows "content (export_chunk c) = content e"
proof -
  let ?meta = "metadata_of e"
  let ?cs = "filter (\<lambda>x. fst x \<notin> set STANDARD_META) ?meta"
  from import_entry_plain [OF assms(1,3), of u] assms(4)
  obtain a b l where c: "Some (ch_id c) = get_own e (js ''id'')" "Some (ch_text c) = get_own e (js ''text'')"
      "ch_customFields c = ?cs" "ch_metadata c = [(js ''page_title'', a), (js ''source'', b), (js ''license'', l)]"
      "\<forall>k \<in> set STANDARD_META. map_of (ch_metadata c) k = map_of ?meta k"
    by auto
  from assms(1) obtain fs i t md where f: "e = JObj fs" "map_of fs (js ''metadata'') = Some (JObj md)"
      "distinct (keys md)"
    by (rule well_formed_fields)
  have m: "?meta = md" using f by (simp add: metadata_of_def get_own_def)
  have d: "distinct (map fst ?meta)" using f(3) m by (simp add: keys_def)
  have dc: "distinct (map fst ?cs)" using d by (simp add: distinct_map_filter)
  have tr: "\<forall>x \<in> set ?cs. fst x \<noteq> [] \<and> trim (fst x) = fst x \<and> fst x \<noteq> js ''__proto__'' \<and> kept (snd x)"
  proof
    fix x assume x: "x \<in> set ?cs"
    then have 1: "fst x \<notin> set STANDARD_META" "x \<in> set ?meta" by auto
    then have "fst x \<in> set (keys ?meta)" by (auto simp: keys_def)
    then have 2: "fst x \<noteq> [] \<and> trim (fst x) = fst x \<and> fst x \<noteq> js ''__proto__''"
      using assms(2) 1(1) by (auto simp: plain_custom_keys_def list_all_iff)
    obtain xk xv where xe: "x = (xk, xv)" by (cases x)
    have "case xv of JStr s \<Rightarrow> True | _ \<Rightarrow> False"
      using assms(3) 1 xe by (auto simp: plain_values_def list_all_iff)
    then have "case snd x of JStr s \<Rightarrow> True | _ \<Rightarrow> False" using xe by simp
    then have "kept (snd x)" by (cases "snd x") (auto simp: kept_def)
    with 2 show "fst x \<noteq> [] \<and> trim (fst x) = fst x \<and> fst x \<noteq> js ''__proto__'' \<and> kept (snd x)" by simp
  qed
  let ?out = "foldl (\<lambda>md (key, value).
                 if key \<noteq> [] \<and> trim key \<noteq> [] then obj_set md (trim key) (or_blank (Some value)) else md)
               (ch_metadata c) ?cs"
  have "map_of ?out k = map_of ?meta k" for k
  proof -
    have "map_of ?out k = (case map_of (rev ?cs) k of None \<Rightarrow> map_of (ch_metadata c) k | Some v \<Rightarrow> Some v)"
      using export_md_trimmed [OF tr, of "ch_metadata c" k] by simp
    also have "\<dots> = (case map_of ?cs k of None \<Rightarrow> map_of (ch_metadata c) k | Some v \<Rightarrow> Some v)"
      by (simp add: map_of_rev_distinct [OF dc])
    also have "\<dots> = map_of ?meta k"
    proof (cases "k \<in> set STANDARD_META")
      case True
      then have "map_of ?cs k = None"
        using map_of_filter_keys [of "\<lambda>k. k \<notin> set STANDARD_META" ?meta k] by simp
      moreover have "map_of (ch_metadata c) k = map_of ?meta k" using c(5) True by blast
      ultimately show ?thesis by (simp only: option.case)
    next
      case False
      then have 1: "map_of ?cs k = map_of ?meta k"
        using map_of_filter_keys [of "\<lambda>k. k \<notin> set STANDARD_META" ?meta k] by simp
      have 2: "map_of (ch_metadata c) k = None" unfolding c(4) using False by (rule map_of_base_out)
      show ?thesis unfolding 1 2 by (simp split: option.splits)
    qed
    finally show ?thesis .
  qed
  then have o: "map_of ?out = map_of ?meta" by (rule ext)
  have ne: "js ''text'' \<noteq> js ''id''" "js ''metadata'' \<noteq> js ''id''" "js ''metadata'' \<noteq> js ''text''"
    by (simp_all add: js_def)
  have 1: "get_own (export_chunk c) (js ''id'') = Some (ch_id c)"
    by (simp add: export_chunk_def get_own_def)
  have 2: "get_own (export_chunk c) (js ''text'') = Some (ch_text c)"
    using ne by (simp add: export_chunk_def get_own_def)
  have 3: "metadata_of (export_chunk c) = ?out"
    using ne c(3) by (simp add: export_chunk_def get_own_def metadata_of_def)
  show ?thesis
    unfolding content_def 1 2 3 o using c(1,2) by simp
qed

lemma round_trip_chunks:
  assumes "list_all well_formed X" and "list_all plain_custom_keys X" and "list_all plain_values X"
    and "length cs = length X" and "\<forall>n < length X. \<exists>u. import_entry u (X ! n) = Inr (cs ! n)"
  shows "map content (map export_chunk cs) = map content X"
proof (rule nth_equalityI)
  show "length (map content (map export_chunk cs)) = length (map content X)" using assms(4) by simp
next
  fix n assume "n < length (map content (map export_chunk cs))"
  then have n: "n < length X" using assms(4) by simp
  then obtain u where u: "import_entry u (X ! n) = Inr (cs ! n)" using assms(5) by blast
  have "X ! n \<in> set X" using n by simp
  then have "well_formed (X ! n)" "plain_custom_keys (X ! n)" "plain_values (X ! n)"
    using assms(1,2,3) by (simp_all add: list_all_iff)
  then have "content (export_chunk (cs ! n)) = content (X ! n)"
    using u by (rule content_round_trip)
  then show "map content (map export_chunk cs) ! n = map content X ! n"
    using n assms(4) by simp
qed

section \<open>Properties of the commit log\<close>

lemma append_commit_drop:
  "append_commit (drop (length cs - MAX_COMMITS) cs) c = drop (length (cs @ [c]) - MAX_COMMITS) (cs @ [c])"
proof (cases "length cs \<ge> MAX_COMMITS")
  case True
  then have "append_commit (drop (length cs - MAX_COMMITS) cs) c = tl (drop (length cs - MAX_COMMITS) cs) @ [c]"
    by (simp add: append_commit_def MAX_COMMITS_def)
  also have "\<dots> = drop (Suc (length cs - MAX_COMMITS)) cs @ [c]"
    by (simp add: drop_Suc tl_drop)
  also have "\<dots> = drop (length (cs @ [c]) - MAX_COMMITS) (cs @ [c])"
  proof -
    have "length (cs @ [c]) - MAX_COMMITS = Suc (length cs - MAX_COMMITS)"
      using True by simp
    moreover have "Suc (length cs - MAX_COMMITS) \<le> length cs"
      using True by (simp add: MAX_COMMITS_def)
    ultimately show ?thesis by simp
  qed
  finally show ?thesis .
next
  case False
  then show ?thesis by (simp add: append_commit_def)
qed

lemma foldl_append_commit: "foldl append_commit [] cs = drop (length cs - MAX_COMMITS) cs"
proof (induction cs rule: rev_induct)
  case Nil
  then show ?case by simp
next
  case (snoc c cs)
  then show ?case using append_commit_drop [of cs c] by simp
qed

lemma run_mutations_log: "run_mutations ms name = foldl append_commit [] (commits_of name ms)"
proof (induction ms arbitrary: name rule: rev_induct)
  case Nil
  then show ?case by (simp add: run_mutations_def commits_of_def)
next
  case (snoc m ms)
  obtain n c where m: "m = (n, c)" by (cases m)
  have "run_mutations (ms @ [m]) = mutate (run_mutations ms) m"
    by (simp add: run_mutations_def)
  then show ?case using snoc m by (simp add: mutate_def commits_of_def)
qed

section \<open>Properties of the session server\<close>

lemma sent_send: "sent (send st w msg) b = (if b = w then sent st w @ [msg] else sent st b)"
  by (simp add: send_def)

lemma readyState_send: "readyState (send st w msg) = readyState st"
  by (simp add: send_def)

lemma sessions_send: "sessions (send st w msg) = sessions st"
  by (simp add: send_def)

lemma foldl_send_other:
  "readyState (foldl (\<lambda>st w. if readyState st w = 1 then send st w msg else st) st ws) = readyState st \<and>
   sessions (foldl (\<lambda>st w. if readyState st w = 1 then send st w msg else st) st ws) = sessions st"
  by (induction ws arbitrary: st) (auto simp: readyState_send sessions_send)

lemma foldl_send_sent:
  "distinct ws \<Longrightarrow>
   sent (foldl (\<lambda>st w. if readyState st w = 1 then send st w msg else st) st ws) b =
     sent st b @ (if b \<in> set ws \<and> readyState st b = 1 then [msg] else [])"
proof (induction ws arbitrary: st)
  case Nil
  then show ?case by simp
next
  case (Cons w ws)
  let ?st' = "if readyState st w = 1 then send st w msg else st"
  have r: "readyState ?st' = readyState st" by (simp add: readyState_send)
  have "sent (foldl (\<lambda>st w. if readyState st w = 1 then send st w msg else st) ?st' ws) b =
        sent ?st' b @ (if b \<in> set ws \<and> readyState ?st' b = 1 then [msg] else [])"
    using Cons.prems by (intro Cons.IH) simp
  then show ?case using Cons.prems r by (auto simp: sent_send)
qed

lemma broadcastToBrowsers_sent:
  "map_get (sessions st) code = Some s \<Longrightarrow> distinct (browsers s) \<Longrightarrow>
   sent (broadcastToBrowsers st code ev data) b =
     sent st b @ (if b \<in> set (browsers s) \<and> readyState st b = 1 then [\<lparr>m_event = ev, m_data = data\<rparr>] else [])"
  by (simp add: broadcastToBrowsers_def foldl_send_sent)

lemma broadcastToBrowsers_sessions: "sessions (broadcastToBrowsers st code ev data) = sessions st"
  by (simp add: broadcastToBrowsers_def foldl_send_other split: option.splits)

lemma map_of_map_delete: "map_of (map_delete m k) = (map_of m)(k := None)"
  by (induction m) (auto simp: map_delete_def fun_eq_iff)

lemma fold_delete:
  "map_of (foldl (\<lambda>m (code, s). if P s then map_delete m code else m) m es) c =
   (if \<exists>s. (c, s) \<in> set es \<and> P s then None else map_of m c)"
proof (induction es arbitrary: m)
  case Nil
  then show ?case by simp
next
  case (Cons e es)
  obtain code s where e: "e = (code, s)" by (cases e)
  show ?case
    unfolding e by (simp add: Cons.IH map_of_map_delete) blast
qed

lemma fold_delete_distinct:
  assumes "distinct (map fst m)"
  shows "map_of (foldl (\<lambda>m (code, s). if P s then map_delete m code else m) m m) c =
         (case map_of m c of None \<Rightarrow> None | Some s \<Rightarrow> if P s then None else Some s)"
proof (cases "map_of m c")
  case None
  then show ?thesis by (simp add: fold_delete)
next
  case (Some s)
  then have "\<And>s'. (c, s') \<in> set m \<longleftrightarrow> s' = s"
    using assms by (metis map_of_eq_Some_iff option.inject)
  then show ?thesis using Some by (simp add: fold_delete)
qed

lemma sweep_sessions:
  assumes "distinct (keys (sessions st))"
  shows "map_get (sessions (sweep st now)) c =
     (case map_get (sessions st) c of
        None \<Rightarrow> None
      | Some s \<Rightarrow> if length (browsers s) = 0 \<and> length (mcpClients s) = 0 \<and>
                     now - createdAt s > 30 * 60 * 1000 then None else Some s)"
proof -
  have d: "distinct (map fst (sessions st))" using assms by (simp add: keys_def)
  have "sessions (sweep st now) =
        foldl (\<lambda>m (code, s). if length (browsers s) = 0 \<and> length (mcpClients s) = 0 \<and>
                     now - createdAt s > 30 * 60 * 1000 then map_delete m code else m)
          (sessions st) (sessions st)"
    unfolding sweep_def by simp
  then show ?thesis
    unfolding map_get_def
    using fold_delete_distinct [OF d, of "\<lambda>s. length (browsers s) = 0 \<and> length (mcpClients s) = 0 \<and>
                     now - createdAt s > 30 * 60 * 1000" c]
    by simp
qed

lemma ws_close_sessions:
  "map_get (sessions (ws_close st code t w now)) c =
     (if c \<noteq> code then map_get (sessions st) c
      else case map_get (sessions st) code of
             None \<Rightarrow> None
           | Some s \<Rightarrow> if browsers (leave t w s) = [] \<and> mcpClients (leave t w s) = [] then None
                       else Some (leave t w s))"
  by (auto simp: ws_close_def Let_def map_get_def map_of_map_set map_of_map_delete
        broadcastToBrowsers_sessions split: option.splits)

lemma create_session_sessions:
  "map_get (sessions (create_session st code now)) c =
     (if c = code then Some \<lparr>browsers = [], mcpClients = [], createdAt = now\<rparr> else map_get (sessions st) c)"
  by (simp add: create_session_def map_get_def map_of_map_set)

lemma ws_connect_keeps:
  "map_get (sessions st) c = Some s \<Longrightarrow> map_get (sessions (ws_connect st sp tp w now)) c \<noteq> None"
  by (auto simp: ws_connect_def reject_def Let_def sessions_send broadcastToBrowsers_sessions
        map_get_def map_of_map_set split: option.splits)

lemma ws_message_sessions: "sessions (ws_message st code ev data) = sessions st"
  by (simp add: ws_message_def broadcastToBrowsers_sessions)

lemma handle_sessions:
  "sessions (fst (fst (handle route operation (st, store) name session))) = sessions st"
  by (auto simp: handle_def Let_def broadcastToBrowsers_sessions split: sum.splits option.splits)

section \<open>The claims about the differ\<close>

text \<open>
  C1. A chunk whose \<open>_uid\<close> is in both snapshots under different categories should give
  one move record and no added or deleted record for it. Here the creeper moves from
  "Mobs" into the category "Enemies" that is new in the current snapshot: no added record
  for the chunk exists, \<open>addIdx\<close> is -1, the deleted record is found at index 1, and
  \<open>delIdx > addIdx\<close> makes the code splice index 0. The record of the added category is
  removed and the deleted record of the moved chunk stays in the output.
\<close>

theorem computeDiff_move_into_new_category:
  "computeDiff v8_prototype (Some move_prev) move_curr =
     [chunk_removed creeper (mk_category ''c1'' ''Mobs'' []),
      chunk_moved creeper (js ''Mobs'') (js ''Enemies'')]"
  by code_simp

text \<open>
  C2 as stated fails: with a chunk deleted from the first category and the second category
  renamed, the chunk deletion comes before the category modification.
\<close>

theorem computeDiff_order_counterexample:
  "computeDiff v8_prototype (Some order_prev) order_curr =
     [chunk_removed creeper (mk_category ''c1'' ''Mobs'' []),
      category_renamed (mk_category ''c2'' ''Biomes'' []) (mk_category ''c2'' ''Worlds'' [])] \<and>
   \<not> spec_order (computeDiff v8_prototype (Some order_prev) order_curr)"
  by code_simp

text \<open>
  C2, amended. For non-null snapshots the records come in this order: the category
  deletions, the category additions, then for each category of the current snapshot that
  is also in the previous one, in encounter order, its rename record followed by its chunk
  deletions, additions and modifications, and last the move records. The reconciliation
  only removes records from this list; when no chunk changed category it removes nothing.
\<close>

theorem computeDiff_order:
  "subseq (computeDiff proto (Some prv) cur)
     (category_deletions prv cur @ category_additions prv cur @
      concat (map (category_changes proto prv) (cats_by_id cur)) @ chunk_moves prv cur) \<and>
   (chunk_moves prv cur = [] \<longrightarrow>
    computeDiff proto (Some prv) cur =
      category_deletions prv cur @ category_additions prv cur @
      concat (map (category_changes proto prv) (cats_by_id cur)))"
  unfolding computeDiff_eq moved_chunks_def chunk_moves_def
  using foldl_move_step_subseq [of "before_moves proto prv cur" "before_moves proto prv cur" prv "allChunkUids cur"]
        foldl_move_step_none [of prv "allChunkUids cur" "before_moves proto prv cur"]
  by (simp add: before_moves_def)

theorem computeDiff_order_witness:
  "chunk_moves mixed_prev mixed_curr = [] \<and>
   computeDiff v8_prototype (Some mixed_prev) mixed_curr =
     category_deletions mixed_prev mixed_curr @ category_additions mixed_prev mixed_curr @
     concat (map (category_changes v8_prototype mixed_prev) (cats_by_id mixed_curr)) \<and>
   length (computeDiff v8_prototype (Some mixed_prev) mixed_curr) = 6"
proof -
  have m: "chunk_moves mixed_prev mixed_curr = []" by code_simp
  have l: "length (computeDiff v8_prototype (Some mixed_prev) mixed_curr) = 6" by code_simp
  show ?thesis using computeDiff_order [of v8_prototype mixed_prev mixed_curr] m l by simp
qed




text \<open>
  C4. The diff of a snapshot against itself, or against a copy equal to it field by field,
  is empty.
\<close>

theorem computeDiff_same: "computeDiff proto (Some s) s = []"
  using foldl_move_step_none [of s "allChunkUids s" "[]"] chunk_moves_same [of s]
  by (simp add: computeDiff_eq moved_chunks_def before_moves_same chunk_moves_def)

theorem computeDiff_same_witness: "computeDiff v8_prototype (Some mixed_curr) mixed_curr = []"
  by (rule computeDiff_same)

section \<open>The claim about import and export\<close>

text \<open>
  C5 as stated fails, in five ways. Export trims every custom key and drops a blank one: a
  record whose custom keys are \<open>" health"\<close> and \<open>" "\<close> comes back with the one custom
  key \<open>"health"\<close>. Import turns the value of a custom key into a string: the number 20
  comes back as the string \<open>"20"\<close>. Import replaces a falsy id, text or reserved value
  by the empty string: the id 0 comes back as \<open>""\<close>. Import gives each chunk the three
  reserved keys: a record without metadata comes back with the three keys, each the empty
  string. And the custom key \<open>__proto__\<close> is lost when export assigns it to the metadata
  object.
\<close>

theorem export_import_counterexample:
  "export_of_import [padded_record] =
     Inr (Some [mk_record (JStr (js ''creeper'')) ''hostile'' [(''health'', JStr (js ''20''))]]) \<and>
   export_of_import [numeric_record] =
     Inr (Some [mk_record (JStr (js ''creeper'')) ''hostile'' [(''health'', JStr (js ''20''))]]) \<and>
   export_of_import [zero_record] =
     Inr (Some [mk_record (JStr []) ''hostile'' [(''health'', JStr (js ''20''))]]) \<and>
   export_of_import [bare_record] =
     Inr (Some [JObj [(js ''id'', JStr (js ''creeper'')), (js ''text'', JStr (js ''hostile'')),
                      (js ''metadata'', JObj [(js ''page_title'', JStr []), (js ''source'', JStr []),
                                              (js ''license'', JStr [])])]]) \<and>
   export_of_import [proto_record] =
     Inr (Some [mk_record (JStr (js ''creeper'')) ''hostile'' []])"
  by code_simp

text \<open>
  C5, amended. Take a flat array in which every record is an object with the keys
  \<open>id\<close>, \<open>text\<close> and \<open>metadata\<close>, its metadata an object with the three reserved keys;
  the id, the text and the reserved values are strings or other truthy values; the custom
  values are strings; and the custom keys are not blank, carry no white space at their
  ends and are not \<open>__proto__\<close>. Its import as a project with a fresh, non-empty id
  succeeds, and the export has one record per input record, in order, with the same id,
  the same text and the same metadata keys and values.
\<close>

theorem export_import_round_trip:
  assumes "pid \<noteq> []" and "pid \<notin> proj_id ` set (projects d)"
    and "list_all well_formed X" and "list_all plain_custom_keys X" and "list_all plain_values X"
  shows "case importProject d name X pid now cid uids of
           Inl e \<Rightarrow> False
         | Inr (d', p) \<Rightarrow> map_option (map content) (exportJSON d') = Some (map content X)"
proof -
  obtain cs where cs: "import_chunks uids [] X = Inr cs" "length cs = length X"
      "\<forall>n < length X. \<exists>u. import_entry u (X ! n) = Inr (cs ! n)"
    using import_chunks_plain [OF assms(3,5), of uids "[]"] by auto
  let ?category = "\<lparr>cat_id = cid, cat_name = js ''Imported'', cat_expanded = True, cat_chunks = cs\<rparr>"
  let ?project = "\<lparr>proj_id = pid, proj_name = trim name, proj_createdAt = now, categories = [?category]\<rparr>"
  let ?d' = "d\<lparr>projects := projects d @ [?project], currentProjectId := Some pid\<rparr>"
  have i: "importProject d name X pid now cid uids = Inr (?d', ?project)"
    using cs(1) by (simp add: importProject_def Let_def)
  have "getCurrentProject ?d' = Some ?project"
    using assms(1,2) by (rule getCurrentProject_pushed) simp
  then have "exportJSON ?d' = Some (map export_chunk cs)"
    using exportJSON_eq [of ?d' ?project] by (simp add: all_chunks_def)
  moreover have "map content (map export_chunk cs) = map content X"
    using assms(3,4,5) cs(2,3) by (rule round_trip_chunks)
  ultimately have "map_option (map content) (exportJSON ?d') = Some (map content X)" by simp
  then show ?thesis unfolding i by simp
qed

theorem export_import_round_trip_witness:
  "js ''p1'' \<noteq> [] \<and> js ''p1'' \<notin> proj_id ` set (projects empty_store) \<and>
   list_all well_formed [creeper_record] \<and> list_all plain_custom_keys [creeper_record] \<and>
   list_all plain_values [creeper_record] \<and>
   (case importProject empty_store (js ''minecraft'') [creeper_record] (js ''p1'')
           (js ''2026-02-27T10:00:00.000Z'') (js ''c1'') show_nat of
      Inl e \<Rightarrow> False
    | Inr (d', p) \<Rightarrow> map_option (map content) (exportJSON d') = Some (map content [creeper_record]))"
proof -
  have h1: "js ''p1'' \<noteq> []" by (simp add: js_def)
  have h2: "js ''p1'' \<notin> proj_id ` set (projects empty_store)" by (simp add: empty_store_def)
  have h3: "list_all well_formed [creeper_record]" by code_simp
  have h4: "list_all plain_custom_keys [creeper_record]" by code_simp
  have h5: "list_all plain_values [creeper_record]" by code_simp
  show ?thesis
    using h1 h2 h3 h4 h5
      export_import_round_trip [OF h1 h2 h3 h4 h5, of "js ''minecraft''" "js ''2026-02-27T10:00:00.000Z''"
        "js ''c1''" show_nat]
    by blast
qed

section \<open>The claim about the commit log\<close>

text \<open>
  C6. After any sequence of successful mutations, the listing of a dataset's log has
  min(50, number of mutations of that dataset) entries, never more than 50: the most recent
  ones, in the order they were made, hence by ascending timestamp when the mutations
  carry ascending timestamps.
\<close>

theorem commit_log_fifo:
  "length (list_commits (run_mutations ms name)) = min MAX_COMMITS (length (commits_of name ms)) \<and>
   MAX_COMMITS = 50 \<and>
   length (list_commits (run_mutations ms name)) \<le> 50 \<and>
   list_commits (run_mutations ms name) =
     map c_meta (drop (length (commits_of name ms) - MAX_COMMITS) (commits_of name ms)) \<and>
   (sorted (map (c_timestamp \<circ> c_meta) (commits_of name ms)) \<longrightarrow>
    sorted (map c_timestamp (list_commits (run_mutations ms name))))"
proof -
  have l: "run_mutations ms name = drop (length (commits_of name ms) - MAX_COMMITS) (commits_of name ms)"
    by (simp add: run_mutations_log foldl_append_commit)
  have s: "sorted (map (c_timestamp \<circ> c_meta) (commits_of name ms)) \<Longrightarrow>
           sorted (map c_timestamp (list_commits (run_mutations ms name)))"
    unfolding l list_commits_def by (simp add: drop_map [symmetric] sorted_wrt_drop del: drop_map)
  show ?thesis using s by (auto simp: l list_commits_def MAX_COMMITS_def)
qed

theorem commit_log_fifo_witness:
  "sorted (map (c_timestamp \<circ> c_meta) (commits_of (js ''d'') fifty_one)) \<and>
   length (commits_of (js ''d'') fifty_one) = 51 \<and>
   length (list_commits (run_mutations fifty_one (js ''d''))) = 50 \<and>
   map c_timestamp (list_commits (run_mutations fifty_one (js ''d''))) = [2..<52] \<and>
   sorted (map c_timestamp (list_commits (run_mutations fifty_one (js ''d''))))"
proof -
  have l: "length (commits_of (js ''d'') fifty_one) = 51" by code_simp
  have s: "sorted (map (c_timestamp \<circ> c_meta) (commits_of (js ''d'') fifty_one))" by code_simp
  have d: "map c_timestamp (map c_meta (drop (Suc 0) (commits_of (js ''d'') fifty_one))) = [2..<52]"
    by code_simp
  have v: "list_commits (run_mutations fifty_one (js ''d'')) =
           map c_meta (drop (Suc 0) (commits_of (js ''d'') fifty_one))"
    using commit_log_fifo [of fifty_one "js ''d''"] by (simp add: l MAX_COMMITS_def)
  have w: "sorted (map c_timestamp (list_commits (run_mutations fifty_one (js ''d''))))"
    using commit_log_fifo [of fifty_one "js ''d''"] s by blast
  have n: "length (list_commits (run_mutations fifty_one (js ''d''))) = 50"
    unfolding v by (simp add: l)
  have m: "map c_timestamp (list_commits (run_mutations fifty_one (js ''d''))) = [2..<52]"
    unfolding v by (rule d)
  show ?thesis using s l n m w by blast
qed

section \<open>The claims about the session server\<close>

text \<open>
  C7 as stated fails. The handlers call \<open>broadcastToBrowsers\<close>: after a successful
  \<open>POST categories\<close> the MCP client 2 of the session, connected and open, receives
  nothing, while browser 1 does; the function \<open>broadcast\<close>, which no handler calls, would
  have reached client 2. The handler of \<open>duplicate\<close> sends nothing to anyone, and the
  handler of \<open>POST /api/projects\<close> sends \<open>project:created\<close> with the result of the store
  call, not \<open>data:changed\<close> with the name.
\<close>

theorem handle_counterexample:
  "map_get (sessions one_session) (js ''ABC123'') =
     Some \<lparr>browsers = [1], mcpClients = [2, 3], createdAt = 1000\<rparr> \<and>
   readyState one_session 1 = 1 \<and> readyState one_session 2 = 1 \<and>
   sent (fst (fst (handle CreateCategory (count_call (js ''Mobs'')) (one_session, 0) (js ''d'')
                     (Some (js ''ABC123''))))) 2 = [] \<and>
   sent (fst (fst (handle CreateCategory (count_call (js ''Mobs'')) (one_session, 0) (js ''d'')
                     (Some (js ''ABC123''))))) 1 =
     [\<lparr>m_event = js ''data:changed'', m_data = Project (js ''d'')\<rparr>] \<and>
   sent (broadcast one_session (js ''ABC123'') (js ''data:changed'') (Project (js ''d'')) None) 2 =
     [\<lparr>m_event = js ''data:changed'', m_data = Project (js ''d'')\<rparr>] \<and>
   snd (handle DuplicateChunk (count_call (js ''u1'')) (one_session, 0) (js ''d'') (Some (js ''ABC123''))) =
     Json (JStr (js ''u1'')) \<and>
   sent (fst (fst (handle DuplicateChunk (count_call (js ''u1'')) (one_session, 0) (js ''d'')
                     (Some (js ''ABC123''))))) 1 = [] \<and>
   sent (fst (fst (handle CreateProject (count_call (js ''d'')) (one_session, 0) (js ''d'')
                     (Some (js ''ABC123''))))) 1 =
     [\<lparr>m_event = js ''project:created'', m_data = Result (JStr (js ''d''))\<rparr>]"
  by code_simp

text \<open>
  C7, amended. A request to one of the fourteen mutating routes whose store call succeeds
  and which carries a non-empty session code naming an active session is answered with the
  result, and it sends to every browser-role handle of that session whose connection is
  open, whether or not it is the originator: nothing for the routes \<open>toggle\<close>, \<open>blank\<close>
  and \<open>duplicate\<close>; one \<open>project:created\<close> or \<open>project:deleted\<close> event carrying the
  result for the creation or deletion of a project; one \<open>data:changed\<close> event carrying the
  project name for the nine other routes. No other handle receives anything.
\<close>

theorem handle_broadcast:
  assumes "operation store = Inr (store', result)"
    and "code \<noteq> []"
    and "map_get (sessions st) code = Some s"
    and "distinct (browsers s)"
  shows "snd (handle route operation (st, store) name (Some code)) = Json result \<and>
         sent (fst (fst (handle route operation (st, store) name (Some code)))) w =
           sent st w @
           (if w \<in> set (browsers s) \<and> readyState st w = 1
            then (if route \<in> {ToggleCategory, AddBlankChunk, DuplicateChunk} then []
                  else if route = CreateProject
                  then [\<lparr>m_event = js ''project:created'', m_data = Result result\<rparr>]
                  else if route = DeleteProject
                  then [\<lparr>m_event = js ''project:deleted'', m_data = Result result\<rparr>]
                  else [\<lparr>m_event = js ''data:changed'', m_data = Project name\<rparr>])
            else [])"
  using assms by (cases route) (simp_all add: handle_def broadcastToBrowsers_sent)

theorem handle_broadcast_witness:
  "count_call (js ''Mobs'') 0 = Inr (1, JStr (js ''Mobs'')) \<and>
   js ''ABC123'' \<noteq> [] \<and>
   map_get (sessions one_session) (js ''ABC123'') =
     Some \<lparr>browsers = [1], mcpClients = [2, 3], createdAt = 1000\<rparr> \<and>
   snd (handle MoveChunk (count_call (js ''Mobs'')) (one_session, 0) (js ''d'') (Some (js ''ABC123''))) =
     Json (JStr (js ''Mobs'')) \<and>
   sent (fst (fst (handle MoveChunk (count_call (js ''Mobs'')) (one_session, 0) (js ''d'')
                     (Some (js ''ABC123''))))) 1 =
     [\<lparr>m_event = js ''data:changed'', m_data = Project (js ''d'')\<rparr>] \<and>
   sent (fst (fst (handle MoveChunk (count_call (js ''Mobs'')) (one_session, 0) (js ''d'')
                     (Some (js ''ABC123''))))) 3 = [] \<and>
   sent (fst (fst (handle DeleteProject (count_call (js ''Mobs'')) (one_session, 0) (js ''d'')
                     (Some (js ''ABC123''))))) 1 =
     [\<lparr>m_event = js ''project:deleted'', m_data = Result (JStr (js ''Mobs''))\<rparr>] \<and>
   sent (fst (fst (handle ToggleCategory (count_call (js ''Mobs'')) (one_session, 0) (js ''d'')
                     (Some (js ''ABC123''))))) 1 = []"
proof -
  let ?s = "\<lparr>browsers = [1], mcpClients = [2, 3], createdAt = 1000\<rparr>"
  have h1: "count_call (js ''Mobs'') 0 = Inr (1, JStr (js ''Mobs''))" by (simp add: count_call_def)
  have h2: "js ''ABC123'' \<noteq> []" by (simp add: js_def)
  have h3: "map_get (sessions one_session) (js ''ABC123'') = Some ?s" by code_simp
  have h4: "distinct (browsers ?s)" by simp
  have r: "readyState one_session = (\<lambda>w. 1)" "sent one_session = (\<lambda>w. [])" by (simp_all add: one_session_def)
  note T = handle_broadcast [where operation = "count_call (js ''Mobs'')" and store = 0 and name = "js ''d''",
             OF h1 h2 h3 h4]
  show ?thesis
    using h1 h2 h3 T [of MoveChunk 1] T [of MoveChunk 3] T [of DeleteProject 1] T [of ToggleCategory 1]
    by (simp add: r)
qed

text \<open>
  C8 as stated fails: MCP client 2 disconnects while MCP client 3 of the same session
  remains, and browser 1 still gets \<open>mcp:disconnected\<close>.
\<close>

theorem ws_close_counterexample:
  "sent (ws_close one_session (js ''ABC123'') (js ''mcp'') 2 5000) 1 =
     [\<lparr>m_event = js ''mcp:disconnected'', m_data = Timestamp 5000\<rparr>] \<and>
   map_get (sessions (ws_close one_session (js ''ABC123'') (js ''mcp'') 2 5000)) (js ''ABC123'') =
     Some \<lparr>browsers = [1], mcpClients = [3], createdAt = 1000\<rparr>"
  by code_simp

text \<open>
  C8, amended. \<open>mcp:disconnected\<close> is sent to every open browser-role handle of the
  session on the disconnect of any MCP-role member, whether or not other MCP-role members
  remain; the disconnect of a browser-role member sends nothing.
\<close>

theorem ws_close_emits:
  assumes "map_get (sessions st) code = Some s" and "distinct (browsers s)"
  shows "sent (ws_close st code clientType w now) b =
           sent st b @ (if clientType = js ''mcp'' \<and> b \<in> set (browsers s) \<and> readyState st b = 1
                        then [\<lparr>m_event = js ''mcp:disconnected'', m_data = Timestamp now\<rparr>] else [])"
proof -
  let ?s' = "leave clientType w s"
  let ?st1 = "st\<lparr>sessions := map_set (sessions st) code ?s'\<rparr>"
  have g: "map_get (sessions ?st1) code = Some ?s'" by (simp add: map_get_def map_of_map_set)
  show ?thesis
  proof (cases "clientType = js ''mcp''")
    case True
    then have b: "browsers ?s' = browsers s" by (simp add: leave_def)
    have "distinct (browsers ?s')" using assms(2) b by simp
    then have "sent (broadcastToBrowsers ?st1 code (js ''mcp:disconnected'') (Timestamp now)) b =
          sent ?st1 b @ (if b \<in> set (browsers ?s') \<and> readyState ?st1 b = 1
                         then [\<lparr>m_event = js ''mcp:disconnected'', m_data = Timestamp now\<rparr>] else [])"
      using g by (rule broadcastToBrowsers_sent [rotated])
    then show ?thesis using True assms(1) b by (simp add: ws_close_def Let_def)
  next
    case False
    then show ?thesis using assms(1) by (simp add: ws_close_def Let_def)
  qed
qed

theorem ws_close_emits_witness:
  "map_get (sessions one_session) (js ''ABC123'') =
     Some \<lparr>browsers = [1], mcpClients = [2, 3], createdAt = 1000\<rparr> \<and>
   sent (ws_close one_session (js ''ABC123'') (js ''mcp'') 3 5000) 1 =
     [\<lparr>m_event = js ''mcp:disconnected'', m_data = Timestamp 5000\<rparr>] \<and>
   sent (ws_close one_session (js ''ABC123'') (js ''browser'') 1 5000) 1 = []"
proof -
  let ?s = "\<lparr>browsers = [1], mcpClients = [2, 3], createdAt = 1000\<rparr>"
  have h1: "map_get (sessions one_session) (js ''ABC123'') = Some ?s" by code_simp
  have h2: "distinct (browsers ?s)" by simp
  have r: "readyState one_session = (\<lambda>w. 1)" "sent one_session = (\<lambda>w. [])" by (simp_all add: one_session_def)
  show ?thesis
    using h1 ws_close_emits [OF h1 h2, of "js ''mcp''" 3 5000 1]
      ws_close_emits [OF h1 h2, of "js ''browser''" 1 5000 1]
    by (simp add: r js_def)
qed

text \<open>
  C9 as stated fails: the close handler of the last member deletes the session from the
  registry at once, here one millisecond after the session was created.
\<close>

theorem ws_close_removes_counterexample:
  "map_get (sessions lone_browser) (js ''ABC123'') = Some \<lparr>browsers = [1], mcpClients = [], createdAt = 1000\<rparr> \<and>
   sessions (step lone_browser (Closed (js ''ABC123'') (js ''browser'') 1 1001)) = []"
  by code_simp

text \<open>
  C9, amended. A session of the registry is gone after an event exactly in two cases: the
  event is the disconnect of a client of that session that leaves both member sets empty,
  whatever the session's age, or it is the periodic sweep, at a time when both member sets
  are empty and more than 30 minutes have passed since the session's creation.
\<close>

theorem session_removal:
  assumes "distinct (keys (sessions st))" and "map_get (sessions st) c = Some s"
  shows "map_get (sessions (step st e)) c = None \<longleftrightarrow>
           (\<exists>clientType w now. e = Closed c clientType w now \<and>
               browsers (leave clientType w s) = [] \<and> mcpClients (leave clientType w s) = []) \<or>
           (\<exists>now. e = Swept now \<and> length (browsers s) = 0 \<and> length (mcpClients s) = 0 \<and>
               now - createdAt s > 30 * 60 * 1000)"
proof (cases e)
  case (Requested code now)
  then show ?thesis using assms(2) by (simp add: step_def create_session_sessions)
next
  case (Connected sp tp w now)
  then show ?thesis using ws_connect_keeps [OF assms(2)] by (simp add: step_def)
next
  case (Messaged code ev data)
  then show ?thesis using assms(2) by (simp add: step_def ws_message_sessions)
next
  case (Closed code clientType w now)
  then show ?thesis using assms(2) by (auto simp: step_def ws_close_sessions split: if_splits)
next
  case (Swept now)
  then show ?thesis using assms(2) sweep_sessions [OF assms(1), of now c] by (simp add: step_def)
next
  case (Posted route name session result)
  then show ?thesis using assms(2) by (simp add: step_def handle_sessions)
qed

theorem session_removal_witness:
  "distinct (keys (sessions idle_sessions)) \<and>
   map_get (sessions idle_sessions) (js ''OLD234'') = Some \<lparr>browsers = [], mcpClients = [], createdAt = 0\<rparr> \<and>
   map_get (sessions idle_sessions) (js ''NEW234'') =
     Some \<lparr>browsers = [], mcpClients = [], createdAt = 1000000\<rparr> \<and>
   map_get (sessions (step idle_sessions (Swept 1800001))) (js ''OLD234'') = None \<and>
   map_get (sessions (step idle_sessions (Swept 1800001))) (js ''NEW234'') \<noteq> None \<and>
   map_get (sessions (step idle_sessions (Connected (Some (js ''OLD234'')) None 7 5))) (js ''OLD234'') \<noteq> None"
proof -
  have h: "distinct (keys (sessions idle_sessions))" by code_simp
  have g1: "map_get (sessions idle_sessions) (js ''OLD234'') =
              Some \<lparr>browsers = [], mcpClients = [], createdAt = 0\<rparr>" by code_simp
  have g2: "map_get (sessions idle_sessions) (js ''NEW234'') =
              Some \<lparr>browsers = [], mcpClients = [], createdAt = 1000000\<rparr>" by code_simp
  have s1: "map_get (sessions (step idle_sessions (Swept 1800001))) (js ''OLD234'') = None"
    using session_removal [OF h g1, of "Swept 1800001"] by simp
  have s2: "map_get (sessions (step idle_sessions (Swept 1800001))) (js ''NEW234'') \<noteq> None"
    using session_removal [OF h g2, of "Swept 1800001"] by simp
  have s3: "map_get (sessions (step idle_sessions (Connected (Some (js ''OLD234'')) None 7 5))) (js ''OLD234'') \<noteq> None"
    using session_removal [OF h g1, of "Connected (Some (js ''OLD234'')) None 7 5"] by simp
  show ?thesis using h g1 g2 s1 s2 s3 by blast
qed

section \<open>The claim about \<open>duplicateChunk\<close>\<close>

text \<open>
  C10. Whenever \<open>duplicateChunk\<close> finds the chunk, it appends to the chunk's category a
  copy whose id is \<open>orig.id + '_copy'\<close>, or empty when the original id is empty, and
  changes nothing else; \<open>isChunkIdTaken\<close> plays no part. So when the original id is not
  empty and another chunk of the project already has the id \<open>orig.id + '_copy'\<close>, the
  project ends up with at least two chunks that share this non-empty id, although
  \<open>isChunkIdTaken\<close> reports the id as taken for the copy.
\<close>

theorem duplicateChunk_breaks_uniqueness:
  assumes "getCurrentProject d = Some project"
    and "find (\<lambda>c. cat_id c = catId) (categories project) = Some cat"
    and "find (\<lambda>ch. ch_uid ch = chunkUid) (cat_chunks cat) = Some orig"
  shows "\<exists>project' pre post.
           getCurrentProject (fst (duplicateChunk d catId chunkUid newUid)) = Some project' \<and>
           snd (duplicateChunk d catId chunkUid newUid) = Some (catId, newUid) \<and>
           all_chunks project = pre @ post \<and>
           all_chunks project' =
             pre @ [orig\<lparr>ch_uid := newUid,
                         ch_id := (if ch_id orig \<noteq> [] then ch_id orig @ js ''_copy'' else [])\<rparr>] @ post \<and>
           (ch_id orig \<noteq> [] \<and> other \<in> set (all_chunks project) \<and>
            ch_id other = ch_id orig @ js ''_copy'' \<longrightarrow>
              ch_id orig @ js ''_copy'' \<noteq> [] \<and>
              length (filter (\<lambda>ch. ch_id ch = ch_id orig @ js ''_copy'') (all_chunks project')) \<ge> 2 \<and>
              (ch_uid other \<noteq> newUid \<longrightarrow> isChunkIdTaken d (ch_id orig @ js ''_copy'') newUid))"
proof -
  let ?copy = "orig\<lparr>ch_uid := newUid,
                    ch_id := (if ch_id orig \<noteq> [] then ch_id orig @ js ''_copy'' else [])\<rparr>"
  let ?f = "\<lambda>c. c\<lparr>cat_chunks := cat_chunks c @ [?copy]\<rparr>"
  let ?p' = "project\<lparr>categories := update_first (\<lambda>c. cat_id c = catId) ?f (categories project)\<rparr>"
  let ?Q = "\<lambda>ch. ch_id ch = ch_id orig @ js ''_copy''"
  have dup: "duplicateChunk d catId chunkUid newUid =
     (d\<lparr>projects := update_first (\<lambda>p. Some (proj_id p) = currentProjectId d) (\<lambda>p. ?p') (projects d)\<rparr>,
      Some (catId, newUid))"
    using duplicateChunk_found [OF assms(1,2,3)] by simp
  have cur: "getCurrentProject (fst (duplicateChunk d catId chunkUid newUid)) = Some ?p'"
    unfolding dup using getCurrentProject_update [OF assms(1), of ?p'] by simp
  have res: "snd (duplicateChunk d catId chunkUid newUid) = Some (catId, newUid)"
    unfolding dup by simp
  obtain cpre cpost where sp: "categories project = cpre @ cat # cpost"
      "update_first (\<lambda>c. cat_id c = catId) ?f (categories project) = cpre @ ?f cat # cpost"
    using update_first_split [OF assms(2)] by blast
  let ?pre = "concat (map cat_chunks cpre) @ cat_chunks cat"
  let ?post = "concat (map cat_chunks cpost)"
  have old: "all_chunks project = ?pre @ ?post"
    by (simp add: all_chunks_def sp(1))
  have new: "all_chunks ?p' = ?pre @ [?copy] @ ?post"
    by (simp add: all_chunks_def sp(2))
  have clash: "ch_id orig @ js ''_copy'' \<noteq> [] \<and>
               length (filter ?Q (all_chunks ?p')) \<ge> 2 \<and>
               (ch_uid other \<noteq> newUid \<longrightarrow> isChunkIdTaken d (ch_id orig @ js ''_copy'') newUid)"
    if a: "ch_id orig \<noteq> []" "other \<in> set (all_chunks project)" "ch_id other = ch_id orig @ js ''_copy''"
  proof -
    have q: "?Q ?copy" using a(1) by simp
    have "length (filter ?Q (all_chunks ?p')) = Suc (length (filter ?Q (all_chunks project)))"
      unfolding old new using q by simp
    moreover have "length (filter ?Q (all_chunks project)) \<ge> 1"
    proof -
      have "other \<in> set (filter ?Q (all_chunks project))" using a(2,3) by simp
      then have "filter ?Q (all_chunks project) \<noteq> []" by (metis empty_iff list.set(1))
      then show ?thesis by (simp add: Suc_leI)
    qed
    ultimately have two: "length (filter ?Q (all_chunks ?p')) \<ge> 2" by simp
    have taken: "isChunkIdTaken d (ch_id orig @ js ''_copy'') newUid" if "ch_uid other \<noteq> newUid"
      using isChunkIdTaken_iff [OF assms(1), of "ch_id orig @ js ''_copy''" newUid] a that by auto
    show ?thesis using a(1) two taken by simp
  qed
  show ?thesis
    using cur res old new clash by (intro exI [of _ ?p'] exI [of _ ?pre] exI [of _ ?post]) blast
qed

theorem duplicateChunk_breaks_uniqueness_witness:
  "getCurrentProject dup_store = Some dup_project \<and>
   ch_id creeper \<noteq> [] \<and> creeper_copy \<in> set (all_chunks dup_project) \<and>
   ch_id creeper_copy = ch_id creeper @ js ''_copy'' \<and> ch_uid creeper_copy \<noteq> js ''u10'' \<and>
   (\<exists>project'.
     getCurrentProject (fst (duplicateChunk dup_store (js ''c1'') (js ''u1'') (js ''u10''))) = Some project' \<and>
     snd (duplicateChunk dup_store (js ''c1'') (js ''u1'') (js ''u10'')) = Some (js ''c1'', js ''u10'') \<and>
     length (all_chunks project') = Suc (length (all_chunks dup_project)) \<and>
     length (filter (\<lambda>ch. ch_id ch = ch_id creeper @ js ''_copy'') (all_chunks project')) \<ge> 2 \<and>
     isChunkIdTaken dup_store (ch_id creeper @ js ''_copy'') (js ''u10''))"
proof -
  have h1: "getCurrentProject dup_store = Some dup_project" by code_simp
  have h2: "find (\<lambda>c. cat_id c = js ''c1'') (categories dup_project) = Some (mk_category ''c1'' ''Mobs'' [creeper])"
    by code_simp
  have h3: "find (\<lambda>ch. ch_uid ch = js ''u1'') (cat_chunks (mk_category ''c1'' ''Mobs'' [creeper])) = Some creeper"
    by code_simp
  have h4: "ch_id creeper \<noteq> []" by code_simp
  have h5: "creeper_copy \<in> set (all_chunks dup_project)" by code_simp
  have h6: "ch_id creeper_copy = ch_id creeper @ js ''_copy''" by code_simp
  have h7: "ch_uid creeper_copy \<noteq> js ''u10''" by code_simp
  obtain project' pre post where r:
      "getCurrentProject (fst (duplicateChunk dup_store (js ''c1'') (js ''u1'') (js ''u10''))) = Some project'"
      "snd (duplicateChunk dup_store (js ''c1'') (js ''u1'') (js ''u10'')) = Some (js ''c1'', js ''u10'')"
      "all_chunks dup_project = pre @ post"
      "all_chunks project' =
         pre @ [creeper\<lparr>ch_uid := js ''u10'',
                        ch_id := (if ch_id creeper \<noteq> [] then ch_id creeper @ js ''_copy'' else [])\<rparr>] @ post"
      "ch_id creeper \<noteq> [] \<and> creeper_copy \<in> set (all_chunks dup_project) \<and>
       ch_id creeper_copy = ch_id creeper @ js ''_copy'' \<longrightarrow>
         ch_id creeper @ js ''_copy'' \<noteq> [] \<and>
         length (filter (\<lambda>ch. ch_id ch = ch_id creeper @ js ''_copy'') (all_chunks project')) \<ge> 2 \<and>
         (ch_uid creeper_copy \<noteq> js ''u10'' \<longrightarrow> isChunkIdTaken dup_store (ch_id creeper @ js ''_copy'') (js ''u10''))"
    using duplicateChunk_breaks_uniqueness [OF h1 h2 h3, of "js ''u10''" creeper_copy] by blast
  have l: "length (all_chunks project') = Suc (length (all_chunks dup_project))"
    unfolding r(3) r(4) by simp
  show ?thesis using h1 h4 h5 h6 h7 r(1,2,5) l by blast
qed

end
